theory Spec2Isabelle
  imports Complex_Main "HOL-Library.Sublist"
begin

section \<open>Strings and numbers of the source language\<close>

text \<open>
  A JavaScript string is a sequence of UTF-16 code units. A code unit is modelled by its
  number (a natural number below 65536), so that \<open>length\<close> counts what
  \<^verbatim>\<open>.length\<close> counts and a regular expression without the \<^verbatim>\<open>u\<close> flag steps
  through the list element by element. \<open>js\<close> embeds an ASCII literal.

  A JavaScript number that is finite is modelled by the rational it denotes; rounding,
  NaN and the infinities are outside the model. The only operations the modelled code
  applies to numbers are the test for zero, the comparison with zero and the conversion
  to text.
\<close>

type_synonym jschar = nat
type_synonym jsstring = "jschar list"
type_synonym jsnumber = rat

definition js :: "string \<Rightarrow> jsstring" where
  "js s = map of_char s"

subsection \<open>Errors\<close>

text \<open>
  What a \<^verbatim>\<open>catch\<close> clause can learn of the value that was thrown: whether it is a
  \<^verbatim>\<open>SyntaxError\<close>, another \<^verbatim>\<open>Error\<close>, or no \<^verbatim>\<open>Error\<close> at all, and the message of an
  error.
\<close>

datatype JsError = SyntaxError jsstring | OtherError jsstring | NotAnError

text \<open>\<^verbatim>\<open>err instanceof Error ? err.message : fallback\<close>\<close>

definition message_or :: "JsError \<Rightarrow> jsstring \<Rightarrow> jsstring" where
  "message_or e fallback =
     (case e of SyntaxError m \<Rightarrow> m | OtherError m \<Rightarrow> m | NotAnError \<Rightarrow> fallback)"

section \<open>Item schema (types.ts)\<close>

datatype ItemType =
    SHORT_ANSWER
  | PARAGRAPH
  | MULTIPLE_CHOICE
  | CHECKBOXES
  | DROPDOWN
  | SECTION_HEADER

text \<open>\<^verbatim>\<open>correctAnswer?: string | string[]\<close>\<close>

datatype Answer = Single jsstring | Multiple "jsstring list"

record FormItem =
  title :: jsstring
  description :: "jsstring option"
  itemType :: ItemType
  options :: "jsstring list option"
  points :: "jsnumber option"
  correctAnswer :: "Answer option"
  required :: "bool option"

record Form =
  formTitle :: jsstring
  formDescription :: jsstring
  items :: "FormItem list"

text \<open>
  Truthiness of the optional fields, as the conditions of the source read them:
  an absent field is \<^verbatim>\<open>undefined\<close>; \<^verbatim>\<open>false\<close>, \<^verbatim>\<open>0\<close> and the empty string are
  falsy; every array is truthy, the empty one too.
\<close>

definition truthy_required :: "FormItem \<Rightarrow> bool" where
  "truthy_required item = (required item = Some True)"

definition truthy_points :: "FormItem \<Rightarrow> bool" where
  "truthy_points item = (case points item of None \<Rightarrow> False | Some p \<Rightarrow> p \<noteq> 0)"

definition truthy_correctAnswer :: "FormItem \<Rightarrow> bool" where
  "truthy_correctAnswer item =
     (case correctAnswer item of
        None \<Rightarrow> False
      | Some (Single s) \<Rightarrow> s \<noteq> []
      | Some (Multiple xs) \<Rightarrow> True)"

section \<open>Regular expressions and string builtins of the language\<close>

text \<open>
  White space as \<^verbatim>\<open>\s\<close> and \<^verbatim>\<open>String.prototype.trim\<close> read it (WhiteSpace and
  LineTerminator of ECMA-262), and the word characters of \<^verbatim>\<open>\w\<close>.
\<close>

definition is_space :: "jschar \<Rightarrow> bool" where
  "is_space c =
     (c \<in> {9, 10, 11, 12, 13, 32, 160, 5760, 8232, 8233, 8239, 8287, 12288, 65279}
      \<or> (8192 \<le> c \<and> c \<le> 8202))"

definition is_word :: "jschar \<Rightarrow> bool" where
  "is_word c = ((48 \<le> c \<and> c \<le> 57) \<or> (65 \<le> c \<and> c \<le> 90) \<or> c = 95 \<or> (97 \<le> c \<and> c \<le> 122))"

definition trim :: "jsstring \<Rightarrow> jsstring" where
  "trim s = rev (dropWhile is_space (rev (dropWhile is_space s)))"

text \<open>
  The patterns of the source are built from literal characters, character classes,
  greedy and lazy repetition of a character class, the greedy option, capture groups,
  the two anchors (without the \<^verbatim>\<open>m\<close> flag) and the lookahead. \<open>matcher\<close> is the
  backtracking matcher of ECMA-262 for them, in the continuation-passing form of the
  standard: a state is the index reached, the input that remains from there and the
  captures; the continuation is the rest of the pattern; the first alternative that
  leads to a match is the result.
\<close>

datatype regex =
    Chars jsstring
  | Class "jschar \<Rightarrow> bool"
  | Star "jschar \<Rightarrow> bool"
  | LazyStar "jschar \<Rightarrow> bool"
  | Opt regex
  | Group nat regex
  | Seq regex regex
  | Bol
  | Eol
  | Lookahead regex

type_synonym captures = "nat \<Rightarrow> jsstring option"
type_synonym mstate = "nat \<times> jsstring \<times> captures"

fun star :: "(jschar \<Rightarrow> bool) \<Rightarrow> (mstate \<Rightarrow> mstate option) \<Rightarrow> nat \<Rightarrow> jsstring \<Rightarrow> captures
    \<Rightarrow> mstate option" where
  "star p k i [] caps = k (i, [], caps)"
| "star p k i (c # cs) caps =
     (if p c then
        (case star p k (Suc i) cs caps of
           Some m \<Rightarrow> Some m
         | None \<Rightarrow> k (i, c # cs, caps))
      else k (i, c # cs, caps))"

fun lazy_star :: "(jschar \<Rightarrow> bool) \<Rightarrow> (mstate \<Rightarrow> mstate option) \<Rightarrow> nat \<Rightarrow> jsstring
    \<Rightarrow> captures \<Rightarrow> mstate option" where
  "lazy_star p k i [] caps = k (i, [], caps)"
| "lazy_star p k i (c # cs) caps =
     (case k (i, c # cs, caps) of
        Some m \<Rightarrow> Some m
      | None \<Rightarrow> if p c then lazy_star p k (Suc i) cs caps else None)"

text \<open>
  The option rejects an iteration that matched the empty text (RepeatMatcher, step 2.b),
  so that a group inside it that matched nothing stays undefined.
\<close>

primrec matcher :: "regex \<Rightarrow> (mstate \<Rightarrow> mstate option) \<Rightarrow> mstate \<Rightarrow> mstate option" where
  "matcher (Chars l) k st =
     (case st of (i, s, caps) \<Rightarrow>
        if prefix l s then k (i + length l, drop (length l) s, caps) else None)"
| "matcher (Class p) k st =
     (case st of (i, s, caps) \<Rightarrow>
        (case s of [] \<Rightarrow> None | c # cs \<Rightarrow> if p c then k (Suc i, cs, caps) else None))"
| "matcher (Star p) k st = (case st of (i, s, caps) \<Rightarrow> star p k i s caps)"
| "matcher (LazyStar p) k st = (case st of (i, s, caps) \<Rightarrow> lazy_star p k i s caps)"
| "matcher (Opt r) k st =
     (case matcher r (\<lambda>st'. if fst st' = fst st then None else k st') st of
        Some m \<Rightarrow> Some m
      | None \<Rightarrow> k st)"
| "matcher (Group n r) k st =
     (case st of (i, s, caps) \<Rightarrow>
        matcher r (\<lambda>st'. case st' of (i', s', caps') \<Rightarrow>
                          k (i', s', caps'(n \<mapsto> take (i' - i) s))) st)"
| "matcher (Seq a b) k st = matcher a (matcher b k) st"
| "matcher Bol k st = (case st of (i, s, caps) \<Rightarrow> if i = 0 then k st else None)"
| "matcher Eol k st = (case st of (i, s, caps) \<Rightarrow> if s = [] then k st else None)"
| "matcher (Lookahead r) k st =
     (case st of (i, s, caps) \<Rightarrow>
        (case matcher r Some st of
           None \<Rightarrow> None
         | Some (i', s', caps') \<Rightarrow> k (i, s, caps')))"

fun seq :: "regex list \<Rightarrow> regex" where
  "seq [] = Chars []"
| "seq [r] = r"
| "seq (r # rs) = Seq r (seq rs)"

text \<open>
  \<^verbatim>\<open>RegExp.prototype.exec\<close> of a pattern without the \<^verbatim>\<open>g\<close> and \<^verbatim>\<open>y\<close> flags: the
  match is tried at index 0, then at each later index up to the end of the input.
  \<^verbatim>\<open>String.prototype.match\<close> returns its result; the model keeps the captures.
\<close>

fun exec_from :: "regex \<Rightarrow> nat \<Rightarrow> jsstring \<Rightarrow> mstate option" where
  "exec_from r i [] = matcher r Some (i, [], Map.empty)"
| "exec_from r i (c # cs) =
     (case matcher r Some (i, c # cs, Map.empty) of
        Some m \<Rightarrow> Some m
      | None \<Rightarrow> exec_from r (Suc i) cs)"

definition String_match :: "regex \<Rightarrow> jsstring \<Rightarrow> captures option" where
  "String_match r s = map_option (\<lambda>m. snd (snd m)) (exec_from r 0 s)"

text \<open>
  \<^verbatim>\<open>String.prototype.replace\<close> with a pattern that has the \<^verbatim>\<open>g\<close> flag and the empty
  replacement: every match, found from left to right in the original text, is removed.
  After a match of the empty text the search moves on by one code unit.
\<close>

fun remove_matches :: "regex \<Rightarrow> nat \<Rightarrow> jsstring \<Rightarrow> jsstring" where
  "remove_matches r i [] = []"
| "remove_matches r i (c # cs) =
     (case matcher r Some (i, c # cs, Map.empty) of
        None \<Rightarrow> c # remove_matches r (Suc i) cs
      | Some (i', s', caps') \<Rightarrow>
          if length s' < length (c # cs) then remove_matches r i' s'
          else c # remove_matches r (Suc i) cs)"

section \<open>Response sanitizer (geminiService.ts)\<close>

text \<open>\<^verbatim>\<open>/,(?=\s*?[}\]])/g\<close>\<close>

definition is_closer :: "jschar \<Rightarrow> bool" where
  "is_closer c = (c = 125 \<or> c = 93)"

definition trailingCommaRegex :: regex where
  "trailingCommaRegex =
     Seq (Chars [44]) (Lookahead (Seq (LazyStar is_space) (Class is_closer)))"

definition sanitizeJsonString :: "jsstring \<Rightarrow> jsstring" where
  "sanitizeJsonString jsonStr = remove_matches trailingCommaRegex 0 jsonStr"

text \<open>\<^verbatim>\<open>/^```(\w*)?\s*\n?(.*?)\n?\s*```$/s\<close>\<close>

definition fence :: jsstring where
  "fence = [96, 96, 96]"

definition is_newline :: "jschar \<Rightarrow> bool" where
  "is_newline c = (c = 10)"

definition any_char :: "jschar \<Rightarrow> bool" where
  "any_char c = True"

definition fenceInterior :: regex where
  "fenceInterior =
     seq [Opt (Group 1 (Star is_word)), Star is_space, Opt (Class is_newline),
          Group 2 (LazyStar any_char), Opt (Class is_newline), Star is_space]"

definition fenceRegex :: regex where
  "fenceRegex = seq [Bol, Chars fence, fenceInterior, Chars fence, Eol]"

text \<open>
  The text that \<^verbatim>\<open>generateFormFromText\<close> hands to \<^verbatim>\<open>JSON.parse\<close>, from the text
  of the model's response: trimmed, taken out of its fence when the pattern matches and
  its second group is not empty, and with the trailing commas removed.
\<close>

definition sanitizedJsonStr :: "jsstring \<Rightarrow> jsstring" where
  "sanitizedJsonStr text =
     (let jsonStr = trim text;
          jsonStr = (case String_match fenceRegex jsonStr of
                       None \<Rightarrow> jsonStr
                     | Some caps \<Rightarrow>
                         (case caps 2 of
                            None \<Rightarrow> jsonStr
                          | Some group2 \<Rightarrow> if group2 \<noteq> [] then trim group2 else jsonStr))
      in sanitizeJsonString jsonStr)"

subsection \<open>Trailing commas\<close>

text \<open>
  \<open>closes s\<close>: the text \<open>s\<close> is white space, possibly none, and then a closing brace or
  bracket. A comma is trailing when the text after it closes.
\<close>

fun closes :: "jsstring \<Rightarrow> bool" where
  "closes [] = False"
| "closes (c # cs) = (is_closer c \<or> (is_space c \<and> closes cs))"

fun no_trailing_comma :: "jsstring \<Rightarrow> bool" where
  "no_trailing_comma [] = True"
| "no_trailing_comma (c # cs) = (\<not> (c = 44 \<and> closes cs) \<and> no_trailing_comma cs)"

text \<open>
  \<open>injected t t'\<close>: the text \<open>t'\<close> is the text \<open>t\<close> with trailing commas injected. A
  comma may be put wherever the rest of \<open>t\<close> closes, at most one for each closing brace
  or bracket: after a comma, \<open>in_gap\<close> copies the white space up to the brace or bracket
  and the brace or bracket itself.
\<close>

inductive injected :: "jsstring \<Rightarrow> jsstring \<Rightarrow> bool"
  and in_gap :: "jsstring \<Rightarrow> jsstring \<Rightarrow> bool" where
  inj_end: "injected [] []"
| inj_keep: "injected t t' \<Longrightarrow> injected (c # t) (c # t')"
| inj_comma: "closes t \<Longrightarrow> in_gap t t' \<Longrightarrow> injected t (44 # t')"
| gap_space: "is_space c \<Longrightarrow> in_gap t t' \<Longrightarrow> in_gap (c # t) (c # t')"
| gap_closer: "is_closer c \<Longrightarrow> injected t t' \<Longrightarrow> in_gap (c # t) (c # t')"

subsection \<open>Fences\<close>

text \<open>
  What becomes of a trimmed text that stands between two fences: the fences go, then the
  run of word characters after the opening fence (the language tag), then the white space
  around what is left; a text of which nothing is left, or that does not stand between
  two fences, stays as it is.
\<close>

definition unfenced :: "jsstring \<Rightarrow> jsstring" where
  "unfenced t =
     (if prefix fence t \<and> suffix fence t \<and> 6 \<le> length t then
        (let interior = trim (dropWhile is_word (take (length t - 6) (drop 3 t)))
         in if interior = [] then t else interior)
      else t)"

section \<open>Export mapper, mode A (GoogleFormModal.tsx)\<close>

subsection \<open>The request objects of the forms API\<close>

record Grading =
  pointValue :: jsnumber
  correctAnswers :: "jsstring list"

text \<open>
  The \<^verbatim>\<open>question\<close> object: every key is optional. \<open>q_textQuestion\<close> holds the
  \<^verbatim>\<open>paragraph\<close> flag, \<open>q_choiceQuestion\<close> the \<^verbatim>\<open>type\<close> and the option values.
\<close>

record Question =
  q_required :: "bool option"
  q_grading :: "Grading option"
  q_textQuestion :: "bool option"
  q_choiceQuestion :: "(jsstring \<times> jsstring list) option"

datatype ItemKind = QuestionItem Question | TextItem

record ApiItem =
  i_title :: jsstring
  i_description :: "jsstring option"
  i_kind :: ItemKind

datatype Request =
    UpdateSettings bool jsstring
  | CreateItem ApiItem nat
  | UpdateFormInfo jsstring jsstring

subsection \<open>mapItemToApiRequest\<close>

definition empty_question :: Question where
  "empty_question =
     \<lparr>q_required = None, q_grading = None, q_textQuestion = None, q_choiceQuestion = None\<rparr>"

definition base_question :: "FormItem \<Rightarrow> Question" where
  "base_question item =
     (let question = empty_question;
          question = (if truthy_required item then question\<lparr>q_required := Some True\<rparr>
                      else question)
      in if truthy_points item \<and> 0 < the (points item) \<and> truthy_correctAnswer item
         then question\<lparr>q_grading := Some
                \<lparr>pointValue = the (points item),
                 correctAnswers = (case the (correctAnswer item) of
                                     Multiple xs \<Rightarrow> xs
                                   | Single s \<Rightarrow> [s])\<rparr>\<rparr>
         else question)"

definition choice_kind :: "ItemType \<Rightarrow> jsstring" where
  "choice_kind t =
     (if t = MULTIPLE_CHOICE then js ''RADIO''
      else if t = CHECKBOXES then js ''CHECKBOX''
      else js ''DROP_DOWN'')"

text \<open>
  The result is \<open>None\<close> where the source returns \<^verbatim>\<open>null\<close>. The source does so in
  the \<^verbatim>\<open>default\<close> arm of its switch only, which no value of the enumeration reaches.
\<close>

definition mapItemToApiRequest :: "FormItem \<Rightarrow> Request option" where
  "mapItemToApiRequest item =
     (let question = base_question item in
      case itemType item of
        SHORT_ANSWER \<Rightarrow>
          Some (CreateItem
            \<lparr>i_title = title item, i_description = None,
             i_kind = QuestionItem (question\<lparr>q_textQuestion := Some False\<rparr>)\<rparr> 0)
      | PARAGRAPH \<Rightarrow>
          (let paragraphQuestion = empty_question\<lparr>q_textQuestion := Some True\<rparr>;
               paragraphQuestion =
                 (if truthy_required item then paragraphQuestion\<lparr>q_required := Some True\<rparr>
                  else paragraphQuestion)
           in Some (CreateItem
                \<lparr>i_title = title item, i_description = None,
                 i_kind = QuestionItem paragraphQuestion\<rparr> 0))
      | SECTION_HEADER \<Rightarrow>
          Some (CreateItem
            \<lparr>i_title = title item, i_description = description item, i_kind = TextItem\<rparr> 0)
      | _ \<Rightarrow>
          Some (CreateItem
            \<lparr>i_title = title item, i_description = None,
             i_kind = QuestionItem (question\<lparr>q_choiceQuestion := Some
               (choice_kind (itemType item),
                (case options item of Some opts \<Rightarrow> opts | None \<Rightarrow> []))\<rparr>)\<rparr> 0))"

subsection \<open>createForm\<close>

definition quizSettingsRequest :: Request where
  "quizSettingsRequest = UpdateSettings True (js ''quizSettings.isQuiz'')"

definition descriptionUpdateRequest :: "Form \<Rightarrow> Request" where
  "descriptionUpdateRequest form = UpdateFormInfo (formDescription form) (js ''description'')"

text \<open>\<^verbatim>\<open>form.items.map(mapItemToApiRequest).filter(Boolean).reverse()\<close>\<close>

definition itemRequests :: "Form \<Rightarrow> Request list" where
  "itemRequests form = rev (List.map_filter mapItemToApiRequest (items form))"

definition allRequests :: "Form \<Rightarrow> Request list" where
  "allRequests form = [quizSettingsRequest] @ itemRequests form @ [descriptionUpdateRequest form]"

text \<open>
  The two calls to the platform are the effects of \<^verbatim>\<open>createForm\<close>; their outcomes are
  inputs of the model. A call is rejected (\<^verbatim>\<open>fetch\<close> or \<^verbatim>\<open>.json()\<close> throws), answered with a status that is not a success (the body may carry
  \<^verbatim>\<open>error.message\<close>), or answered successfully.
\<close>

datatype 'a Fetched = Rejected JsError | NotOk "jsstring option" | Ok 'a

datatype ApiCall =
    PostForms jsstring jsstring jsstring
  | PostBatchUpdate jsstring jsstring "Request list" bool

datatype Status = Idle | Authenticating | Creating | Success | Error

record ModalState =
  status :: Status
  error :: "jsstring option"
  formUrl :: "jsstring option"

text \<open>\<^verbatim>\<open>message || fallback\<close> on an optional string\<close>

definition or_else :: "jsstring option \<Rightarrow> jsstring \<Rightarrow> jsstring" where
  "or_else m fallback = (case m of None \<Rightarrow> fallback | Some s \<Rightarrow> if s = [] then fallback else s)"

definition failed :: "ModalState \<Rightarrow> jsstring \<Rightarrow> ModalState" where
  "failed st msg = st\<lparr>error := Some msg, status := Error\<rparr>"

definition creation_error :: "JsError \<Rightarrow> jsstring" where
  "creation_error e = message_or e (js ''An unknown error occurred during form creation.'')"

text \<open>
  \<open>createForm accessToken form st created updated\<close>: the calls issued, in order, and the
  state of the dialog afterwards. \<open>created\<close> is the outcome of the first call (the new
  form's id and responder URI), \<open>updated\<close> the outcome of the batch update.
\<close>

definition createForm ::
  "jsstring \<Rightarrow> Form \<Rightarrow> ModalState \<Rightarrow> (jsstring \<times> jsstring) Fetched \<Rightarrow> unit Fetched
     \<Rightarrow> ApiCall list \<times> ModalState" where
  "createForm accessToken form st created updated =
     (let st = st\<lparr>status := Creating, error := None\<rparr>;
          call1 = PostForms accessToken (formTitle form) (formTitle form)
      in case created of
           Rejected e \<Rightarrow> ([call1], failed st (creation_error e))
         | NotOk msg \<Rightarrow>
             ([call1], failed st (or_else msg (js ''Failed to create the initial form.'')))
         | Ok (formId, responderUri) \<Rightarrow>
             (let finished = st\<lparr>formUrl := Some responderUri, status := Success\<rparr> in
              if 0 < length (allRequests form) then
                (let call2 = PostBatchUpdate accessToken formId (allRequests form) False in
                 case updated of
                   Rejected e \<Rightarrow> ([call1, call2], failed st (creation_error e))
                 | NotOk msg \<Rightarrow>
                     ([call1, call2],
                      failed st (or_else msg
                        (js ''Failed to update the form with items and settings.'')))
                 | Ok u \<Rightarrow> ([call1, call2], finished))
              else ([call1], finished)))"

definition batchUpdates :: "ApiCall list \<Rightarrow> (jsstring \<times> Request list) list" where
  "batchUpdates calls =
     List.map_filter (\<lambda>c. case c of PostBatchUpdate tok fid rs inc \<Rightarrow> Some (fid, rs)
                                    | _ \<Rightarrow> None) calls"

subsection \<open>The platform's batch update\<close>

text \<open>
  The forms platform is not part of the repository. Its documented behaviour is what
  the reversal in \<^verbatim>\<open>createForm\<close> relies on: the requests of a batch are applied in
  order, and a creation request inserts its item at the index of its location.
\<close>

record RemoteForm =
  r_isQuiz :: bool
  r_items :: "ApiItem list"
  r_description :: "jsstring option"

definition shell :: RemoteForm where
  "shell = \<lparr>r_isQuiz = False, r_items = [], r_description = None\<rparr>"

fun applyRequest :: "RemoteForm \<Rightarrow> Request \<Rightarrow> RemoteForm" where
  "applyRequest f (UpdateSettings q m) = f\<lparr>r_isQuiz := q\<rparr>"
| "applyRequest f (CreateItem it i) = f\<lparr>r_items := take i (r_items f) @ it # drop i (r_items f)\<rparr>"
| "applyRequest f (UpdateFormInfo d m) = f\<lparr>r_description := Some d\<rparr>"

definition batchUpdate :: "RemoteForm \<Rightarrow> Request list \<Rightarrow> RemoteForm" where
  "batchUpdate f rs = foldl applyRequest f rs"

text \<open>The item a creation request carries.\<close>

fun createdItem :: "Request \<Rightarrow> ApiItem option" where
  "createdItem (CreateItem it i) = Some it"
| "createdItem _ = None"


text \<open>The grading block of the question a mapped item carries, if there is one.\<close>

definition request_grading :: "Request option \<Rightarrow> Grading option" where
  "request_grading r =
     (case r of
        Some (CreateItem it i) \<Rightarrow>
          (case i_kind it of QuestionItem q \<Rightarrow> q_grading q | TextItem \<Rightarrow> None)
      | _ \<Rightarrow> None)"

section \<open>Export mapper, mode B (GoogleFormModal.tsx)\<close>

subsection \<open>Builtins of the language\<close>

text \<open>
  \<^verbatim>\<open>JSON.stringify\<close> of a string (QuoteJSONString of ECMA-262): the string in double
  quotes, with the double quote, the backslash and the control characters escaped, and
  a surrogate that has no partner written as a \<^verbatim>\<open>\u\<close> escape.
\<close>

definition hexdigit :: "nat \<Rightarrow> jschar" where
  "hexdigit n = (if n < 10 then 48 + n else 87 + n)"

definition unicode_escape :: "jschar \<Rightarrow> jsstring" where
  "unicode_escape c =
     [92, 117, hexdigit (c div 4096 mod 16), hexdigit (c div 256 mod 16),
      hexdigit (c div 16 mod 16), hexdigit (c mod 16)]"

definition is_leading_surrogate :: "jschar \<Rightarrow> bool" where
  "is_leading_surrogate c = (55296 \<le> c \<and> c \<le> 56319)"

definition is_trailing_surrogate :: "jschar \<Rightarrow> bool" where
  "is_trailing_surrogate c = (56320 \<le> c \<and> c \<le> 57343)"

definition quote_unit :: "jschar \<Rightarrow> jsstring" where
  "quote_unit c =
     (if c = 8 then [92, 98]
      else if c = 9 then [92, 116]
      else if c = 10 then [92, 110]
      else if c = 12 then [92, 102]
      else if c = 13 then [92, 114]
      else if c = 34 then [92, 34]
      else if c = 92 then [92, 92]
      else if c < 32 \<or> is_leading_surrogate c \<or> is_trailing_surrogate c then unicode_escape c
      else [c])"

fun quote_units :: "jsstring \<Rightarrow> jsstring" where
  "quote_units [] = []"
| "quote_units [c] = quote_unit c"
| "quote_units (c # d # cs) =
     (if is_leading_surrogate c \<and> is_trailing_surrogate d then c # d # quote_units cs
      else quote_unit c @ quote_units (d # cs))"

definition JSON_stringify :: "jsstring \<Rightarrow> jsstring" where
  "JSON_stringify s = [34] @ quote_units s @ [34]"

text \<open>\<^verbatim>\<open>Array.prototype.join\<close>\<close>

fun join :: "jsstring \<Rightarrow> jsstring list \<Rightarrow> jsstring" where
  "join sep [] = []"
| "join sep [x] = x"
| "join sep (x # y # ys) = x @ sep @ join sep (y # ys)"


subsection \<open>generateAppsScript\<close>

text \<open>
  The conversion of a number to text in a template literal (Number::toString of
  ECMA-262) is a parameter, \<open>numberToString\<close>, of the functions below.

  The text the source builds for one item is a first statement to which further pieces
  are appended, each one after a line break. \<open>itemSetup\<close> is the list of these lines
  (the piece appended after two line breaks is an empty line and a line), and the text of
  the item is \<open>join [10] (itemSetup numberToString item)\<close>. Neither
  \<^verbatim>\<open>JSON.stringify\<close> nor the fixed texts put a line break inside a line.

  The \<^verbatim>\<open>default\<close> arm of the switch on the type of the item, which writes a comment
  naming an unsupported type, is reached by no value of the enumeration and has no
  counterpart below.
\<close>

text \<open>\<^verbatim>\<open>item.points || 0\<close>\<close>

definition points_or_0 :: "FormItem \<Rightarrow> jsnumber" where
  "points_or_0 item = (case points item of None \<Rightarrow> 0 | Some p \<Rightarrow> if p = 0 then 0 else p)"


















section \<open>Form generation client (geminiService.ts)\<close>

text \<open>The values \<^verbatim>\<open>JSON.parse\<close> returns.\<close>

datatype json =
    JNull
  | JBool bool
  | JNumber jsnumber
  | JString jsstring
  | JArray "json list"
  | JObject "(jsstring \<times> json) list"

text \<open>
  Reading a property of a parsed value that is not \<^verbatim>\<open>null\<close>, for the names the source
  reads (\<^verbatim>\<open>title\<close>, \<^verbatim>\<open>description\<close>, \<^verbatim>\<open>items\<close>): an object has the property when
  the document gave it the key, with the value of the last occurrence of the key; an
  array, a string, a number and a boolean do not have it. \<open>None\<close> is \<^verbatim>\<open>undefined\<close>.
\<close>

fun property :: "json \<Rightarrow> jsstring \<Rightarrow> json option" where
  "property (JObject kvs) k = map_of (rev kvs) k"
| "property v k = None"

fun truthy :: "json option \<Rightarrow> bool" where
  "truthy None = False"
| "truthy (Some JNull) = False"
| "truthy (Some (JBool b)) = b"
| "truthy (Some (JNumber n)) = (n \<noteq> 0)"
| "truthy (Some (JString s)) = (s \<noteq> [])"
| "truthy (Some (JArray xs)) = True"
| "truthy (Some (JObject kvs)) = True"

fun isArray :: "json option \<Rightarrow> bool" where
  "isArray (Some (JArray xs)) = True"
| "isArray v = False"

definition unprocessable_message :: jsstring where
  "unprocessable_message =
     js ''The AI'' @ [39] @ js ''s response couldn'' @ [39]
     @ js ''t be processed. This can happen with complex requests. Please try simplifying or rephrasing your input.''"

definition missing_fields_phrase :: jsstring where
  "missing_fields_phrase = js ''AI response is missing required fields''"

definition missing_fields_message :: jsstring where
  "missing_fields_message = missing_fields_phrase @ js '' (title, description, or items).''"

definition generation_failed_message :: jsstring where
  "generation_failed_message =
     js ''Failed to generate form from AI. The service might be temporarily unavailable or the input is too complex.''"

text \<open>
  The error that reading a property of \<^verbatim>\<open>null\<close> throws is a \<^verbatim>\<open>TypeError\<close>; its
  message is the engine's (here V8's).
\<close>

definition null_property_message :: jsstring where
  "null_property_message =
     js ''Cannot read properties of null (reading '' @ [39] @ js ''title'' @ [39] @ js '')''"

text \<open>The \<^verbatim>\<open>catch\<close> clause: the message of the error it throws.\<close>

definition on_error :: "JsError \<Rightarrow> jsstring" where
  "on_error e =
     (case e of
        SyntaxError m \<Rightarrow> unprocessable_message
      | OtherError m \<Rightarrow> if sublist missing_fields_phrase m then m else generation_failed_message
      | NotAnError \<Rightarrow> generation_failed_message)"

text \<open>
  \<open>generateFormFromText JSON_parse response\<close>: the parsed form, or the message of the
  error thrown. \<^verbatim>\<open>JSON.parse\<close> is a parameter (\<open>None\<close> where it throws its
  \<^verbatim>\<open>SyntaxError\<close>). \<open>response\<close> is the outcome of the call to the model: the text of
  the response, or the value the call threw.
\<close>

definition generateFormFromText ::
  "(jsstring \<Rightarrow> json option) \<Rightarrow> JsError + jsstring \<Rightarrow> jsstring + json" where
  "generateFormFromText JSON_parse response =
     (case response of
        Inl e \<Rightarrow> Inl (on_error e)
      | Inr text \<Rightarrow>
          (case JSON_parse (sanitizedJsonStr text) of
             None \<Rightarrow> Inl (on_error (SyntaxError []))
           | Some JNull \<Rightarrow> Inl (on_error (OtherError null_property_message))
           | Some parsedData \<Rightarrow>
               if \<not> truthy (property parsedData (js ''title''))
                  \<or> \<not> truthy (property parsedData (js ''description''))
                  \<or> \<not> isArray (property parsedData (js ''items''))
               then Inl (on_error (OtherError missing_fields_message))
               else Inr parsedData))"

section \<open>Document ingestion (InputPanel.tsx)\<close>

record InputState =
  inputText :: jsstring
  isProcessingFile :: bool
  processingMessage :: jsstring
  fileProcessingError :: "jsstring option"

text \<open>
  A page of a PDF document, as the ingestion reads it: the strings of its text items,
  the height of its viewport at scale 1, whether the canvas gives a drawing context,
  whether rendering succeeds, and the text \<^verbatim>\<open>extractTextFromImage\<close> returns for it
  (\<open>None\<close> where it throws).
\<close>

record PdfPage =
  strs :: "jsstring list"
  height :: jsnumber
  hasContext :: bool
  renders :: bool
  ocrText :: "jsstring option"

text \<open>
  A file: its name, its declared type, and what reading it yields. Reading is the work
  of external libraries, so the outcomes are part of the input: the pages of the document
  \<^verbatim>\<open>getDocument\<close> loads (each page may fail to load), the text \<^verbatim>\<open>mammoth\<close> extracts,
  the text \<^verbatim>\<open>file.text()\<close> returns.
\<close>

record File =
  name :: jsstring
  mime :: jsstring
  pdfDocument :: "JsError + (JsError + PdfPage) list"
  docxText :: "JsError + jsstring"
  plainText :: "JsError + jsstring"

text \<open>\<^verbatim>\<open>err instanceof Error ? err.message : 'An unknown error occurred while reading the file.'\<close>\<close>

definition reading_error :: "JsError \<Rightarrow> jsstring" where
  "reading_error e = message_or e (js ''An unknown error occurred while reading the file.'')"

definition unsupported_message :: jsstring where
  "unsupported_message = js ''Unsupported file type. Please upload a PDF, DOCX, TXT, or MD file.''"

definition docx_mime :: jsstring where
  "docx_mime = js ''application/vnd.openxmlformats-officedocument.wordprocessingml.document''"

text \<open>\<^verbatim>\<open>file.name.split('.').pop()\<close>: the part of the name after its last dot.\<close>

definition last_segment :: "jsstring \<Rightarrow> jsstring" where
  "last_segment s = rev (takeWhile (\<lambda>c. c \<noteq> 46) (rev s))"

definition ocr_failed_message :: "(jsnumber \<Rightarrow> jsstring) \<Rightarrow> nat \<Rightarrow> jsstring" where
  "ocr_failed_message numberToString i =
     js ''Could not read text from an image on page '' @ numberToString (of_nat i)
     @ js ''. The result might be incomplete.''"

text \<open>
  The loop over the pages. \<open>i\<close> is the number of the page at the head of the list. The
  result is the error that ended the loop, if one did, the state of the panel, the text
  gathered and the numbers of the pages for which \<^verbatim>\<open>extractTextFromImage\<close> was called,
  in the order of the calls.
\<close>

fun processPages ::
  "(jsnumber \<Rightarrow> jsstring) \<Rightarrow> nat \<Rightarrow> nat \<Rightarrow> (JsError + PdfPage) list
     \<Rightarrow> InputState \<Rightarrow> jsstring \<Rightarrow> nat list
     \<Rightarrow> JsError option \<times> InputState \<times> jsstring \<times> nat list" where
  "processPages numberToString numPages i [] st fullText calls = (None, st, fullText, calls)"
| "processPages numberToString numPages i (p # ps) st fullText calls =
     (let st = st\<lparr>processingMessage :=
                 js ''Processing page '' @ numberToString (of_nat i) @ js '' of ''
                 @ numberToString (of_nat numPages) @ js ''...''\<rparr>
      in case p of
        Inl e \<Rightarrow> (Some e, st, fullText, calls)
      | Inr page \<Rightarrow>
          (let pageText = join [32] (strs page) in
           if length (trim pageText) < 50 \<and> 100 < height page then
             (let st = st\<lparr>processingMessage :=
                         js ''Image detected on page '' @ numberToString (of_nat i)
                         @ js ''. Running OCR...''\<rparr>;
                  fallback = st\<lparr>fileProcessingError :=
                                 Some (ocr_failed_message numberToString i)\<rparr>
              in if \<not> hasContext page \<or> \<not> renders page then
                   processPages numberToString numPages (Suc i) ps fallback
                     (fullText @ pageText @ [10, 10]) calls
                 else
                   (case ocrText page of
                      None \<Rightarrow>
                        processPages numberToString numPages (Suc i) ps fallback
                          (fullText @ pageText @ [10, 10]) (calls @ [i])
                    | Some ocr \<Rightarrow>
                        processPages numberToString numPages (Suc i) ps st
                          (fullText @ ocr @ [10, 10]) (calls @ [i])))
           else
             processPages numberToString numPages (Suc i) ps st
               (fullText @ pageText @ [10, 10]) calls))"

text \<open>
  \<open>processFile numberToString toLowerCase st file\<close>: the state of the panel when the
  processing of the file has ended, and the numbers of the pages for which
  \<^verbatim>\<open>extractTextFromImage\<close> was called. \<^verbatim>\<open>String.prototype.toLowerCase\<close> is a
  parameter.
\<close>

definition processFile ::
  "(jsnumber \<Rightarrow> jsstring) \<Rightarrow> (jsstring \<Rightarrow> jsstring) \<Rightarrow> InputState \<Rightarrow> File
     \<Rightarrow> InputState \<times> nat list" where
  "processFile numberToString toLowerCase st file =
     (let st = st\<lparr>isProcessingFile := True, fileProcessingError := None, inputText := []\<rparr>;
          fileExtension = toLowerCase (last_segment (name file));
          caught = (\<lambda>e st calls.
            (st\<lparr>fileProcessingError := Some (reading_error e), isProcessingFile := False\<rparr>,
             calls));
          finished = (\<lambda>st calls. (st\<lparr>isProcessingFile := False\<rparr>, calls))
      in if fileExtension = js ''pdf'' \<or> mime file = js ''application/pdf'' then
           (let st = st\<lparr>processingMessage := js ''Loading PDF...''\<rparr> in
            case pdfDocument file of
              Inl e \<Rightarrow> caught e st []
            | Inr pages \<Rightarrow>
                (case processPages numberToString (length pages) 1 pages st [] [] of
                   (Some e, st, fullText, calls) \<Rightarrow> caught e st calls
                 | (None, st, fullText, calls) \<Rightarrow>
                     finished (st\<lparr>inputText := trim fullText\<rparr>) calls))
         else if fileExtension = js ''docx'' \<or> mime file = docx_mime then
           (let st = st\<lparr>processingMessage := js ''Extracting text from DOCX...''\<rparr> in
            case docxText file of
              Inl e \<Rightarrow> caught e st []
            | Inr text \<Rightarrow> finished (st\<lparr>inputText := text\<rparr>) [])
         else if fileExtension \<in> {js ''txt'', js ''md''} \<or> prefix (js ''text/'') (mime file) then
           (let st = st\<lparr>processingMessage := js ''Reading text file...''\<rparr> in
            case plainText file of
              Inl e \<Rightarrow> caught e st []
            | Inr text \<Rightarrow> finished (st\<lparr>inputText := text\<rparr>) [])
         else caught (OtherError unsupported_message) st [])"

text \<open>
  The test by which the loop takes a page for an image: its text, trimmed, is shorter
  than 50 code units and its viewport is higher than 100 units.
\<close>

definition image_only :: "PdfPage \<Rightarrow> bool" where
  "image_only page = (length (trim (join [32] (strs page))) < 50 \<and> 100 < height page)"

text \<open>The page numbers in the result of the loop.\<close>

definition calls_of :: "JsError option \<times> InputState \<times> jsstring \<times> nat list \<Rightarrow> nat list" where
  "calls_of r = snd (snd (snd r))"

section \<open>Sample data\<close>

definition name_item :: FormItem where
  "name_item =
     \<lparr>title = js ''Name'', description = None, itemType = SHORT_ANSWER, options = None,
      points = None, correctAnswer = None, required = Some True\<rparr>"

definition capital_item :: FormItem where
  "capital_item =
     \<lparr>title = js ''What is the capital of Japan?'', description = None,
      itemType = MULTIPLE_CHOICE, options = Some [js ''Tokyo'', js ''Kyoto'', js ''Osaka''],
      points = Some 1, correctAnswer = Some (Single (js ''Tokyo'')), required = Some True\<rparr>"

definition geography_quiz :: Form where
  "geography_quiz =
     \<lparr>formTitle = js ''Geography Quiz'', formDescription = js ''A quiz about world geography.'',
      items = [name_item, capital_item]\<rparr>"

definition modal_idle :: ModalState where
  "modal_idle = \<lparr>status = Idle, error = None, formUrl = None\<rparr>"

text \<open>A short-answer item whose answer is the empty string.\<close>

definition blank_answer_item :: FormItem where
  "blank_answer_item =
     \<lparr>title = js ''Your city'', description = None, itemType = SHORT_ANSWER, options = None,
      points = Some 1, correctAnswer = Some (Single []), required = None\<rparr>"

text \<open>A short-answer item with an answer, and a paragraph item with the same fields.\<close>

definition tokyo_item :: FormItem where
  "tokyo_item =
     \<lparr>title = js ''Capital of Japan?'', description = None, itemType = SHORT_ANSWER,
      options = None, points = Some 2, correctAnswer = Some (Single (js ''Tokyo'')),
      required = Some True\<rparr>"

definition essay_item :: FormItem where
  "essay_item = tokyo_item\<lparr>itemType := PARAGRAPH\<rparr>"






text \<open>A rendering of numbers that is right on the numbers of the sample data.\<close>

definition sample_numberToString :: "jsnumber \<Rightarrow> jsstring" where
  "sample_numberToString p = (if p = 1 then js ''1'' else if p = 2 then js ''2'' else js ''0'')"

text \<open>Parsed responses: one whose title is the empty string, and one that is complete.\<close>

definition untitled_json :: json where
  "untitled_json =
     JObject [(js ''title'', JString []), (js ''description'', JString (js ''A quiz'')),
              (js ''items'', JArray [])]"

definition titled_json :: json where
  "titled_json =
     JObject [(js ''title'', JString (js ''Quiz'')), (js ''description'', JString (js ''A quiz'')),
              (js ''items'', JArray [])]"

text \<open>A parser that is right on the text \<^verbatim>\<open>null\<close>.\<close>

definition null_parser :: "jsstring \<Rightarrow> json option" where
  "null_parser s = (if s = js ''null'' then Some JNull else None)"

text \<open>Lower case for the letters of ASCII.\<close>

definition ascii_toLowerCase :: "jsstring \<Rightarrow> jsstring" where
  "ascii_toLowerCase s = map (\<lambda>c. if 65 \<le> c \<and> c \<le> 90 then c + 32 else c) s"

text \<open>The panel holding a pasted text, an image file, and a scanned one-page document.\<close>

definition panel_with_text :: InputState where
  "panel_with_text =
     \<lparr>inputText = js ''What is the capital of Japan?'', isProcessingFile = False,
      processingMessage = js ''Processing your file...'', fileProcessingError = None\<rparr>"

definition png_file :: File where
  "png_file =
     \<lparr>name = js ''photo.PNG'', mime = js ''image/png'',
      pdfDocument = Inl NotAnError, docxText = Inl NotAnError, plainText = Inl NotAnError\<rparr>"

text \<open>A page whose extracted text is sixty spaces, and a page with a line of sixty letters.\<close>

definition blank_page :: PdfPage where
  "blank_page =
     \<lparr>strs = [replicate 60 32], height = 792, hasContext = True, renders = True,
      ocrText = Some (js ''Scanned text'')\<rparr>"

definition text_page :: PdfPage where
  "text_page = blank_page\<lparr>strs := [replicate 60 97]\<rparr>"

definition scan_file :: File where
  "scan_file =
     \<lparr>name = js ''scan.pdf'', mime = js ''application/pdf'',
      pdfDocument = Inr [Inr text_page, Inr blank_page],
      docxText = Inl NotAnError, plainText = Inl NotAnError\<rparr>"

text \<open>A file that is none of the four formats and declares a text type.\<close>

definition html_file :: File where
  "html_file =
     \<lparr>name = js ''page.html'', mime = js ''text/html'',
      pdfDocument = Inl NotAnError, docxText = Inl NotAnError,
      plainText = Inr (js ''<p>Hello</p>'')\<rparr>"

section \<open>Proofs: strings\<close>

lemma js_Nil: "js [] = []"
  by (simp add: js_def)

lemma js_Cons: "js (c # cs) = of_char c # js cs"
  by (simp add: js_def)

lemmas js_simps = js_Nil js_Cons

section \<open>The sanitizer removes trailing commas\<close>

lemma lookahead_closes:
  "lazy_star is_space (matcher (Class is_closer) Some) i s caps \<noteq> None \<longleftrightarrow> closes s"
  by (induction s arbitrary: i) (auto split: option.splits)

lemma matcher_trailingComma:
  "matcher trailingCommaRegex Some (i, c # cs, caps) =
     (if c = 44 \<and> closes cs then Some (Suc i, cs, caps) else None)"
proof -
  have look: "matcher (Lookahead (Seq (LazyStar is_space) (Class is_closer))) Some (Suc i, cs, caps)
      = (if closes cs then Some (Suc i, cs, caps) else None)"
  proof (cases "lazy_star is_space (matcher (Class is_closer) Some) (Suc i) cs caps")
    case None
    with lookahead_closes [of "Suc i" cs caps] show ?thesis by simp
  next
    case (Some m)
    have caps: "snd (snd m) = caps" if "lazy_star is_space (matcher (Class is_closer) Some) j s caps = Some m" for j s
      using that by (induction s arbitrary: j) (auto split: option.splits if_splits list.splits)
    from Some lookahead_closes [of "Suc i" cs caps] caps [OF Some] show ?thesis
      by (cases m) auto
  qed
  show ?thesis
    unfolding trailingCommaRegex_def using look by (simp add: prefix_def)
qed

lemma remove_matches_trailingComma:
  "remove_matches trailingCommaRegex i (c # cs) =
     (if c = 44 \<and> closes cs then remove_matches trailingCommaRegex (Suc i) cs
      else c # remove_matches trailingCommaRegex (Suc i) cs)"
  by (simp add: matcher_trailingComma)

lemma remove_matches_index:
  "remove_matches trailingCommaRegex i s = remove_matches trailingCommaRegex j s"
proof (induction s arbitrary: i j)
  case Nil
  show ?case by simp
next
  case (Cons c cs)
  from Cons [of "Suc i" "Suc j"] show ?case
    by (simp only: remove_matches_trailingComma)
qed

lemma sanitizeJsonString_Nil: "sanitizeJsonString [] = []"
  by (simp add: sanitizeJsonString_def)

lemma sanitizeJsonString_Cons:
  "sanitizeJsonString (c # cs) =
     (if c = 44 \<and> closes cs then sanitizeJsonString cs else c # sanitizeJsonString cs)"
  unfolding sanitizeJsonString_def remove_matches_trailingComma
  using remove_matches_index [of "Suc 0" cs 0] by simp

lemmas sanitizeJsonString_simps = sanitizeJsonString_Nil sanitizeJsonString_Cons

lemma sanitize_fixed: "no_trailing_comma t \<Longrightarrow> sanitizeJsonString t = t"
  by (induction t) (auto simp: sanitizeJsonString_simps)

lemma closes_injected:
  "injected t t' \<Longrightarrow> closes t' \<Longrightarrow> closes t"
  "in_gap t t' \<Longrightarrow> closes t \<and> closes t'"
proof (induction rule: injected_in_gap.inducts)
  case (inj_comma t t')
  from inj_comma.prems show ?case by (simp add: is_closer_def is_space_def)
qed auto

lemma sanitize_injected:
  "injected t t' \<Longrightarrow> no_trailing_comma t \<Longrightarrow> sanitizeJsonString t' = t"
  "in_gap t t' \<Longrightarrow> no_trailing_comma t \<Longrightarrow> sanitizeJsonString t' = t"
proof (induction rule: injected_in_gap.inducts)
  case inj_end
  show ?case by (simp add: sanitizeJsonString_simps)
next
  case (inj_keep t t' c)
  then have "\<not> (c = 44 \<and> closes t')"
    using closes_injected(1) by auto
  with inj_keep show ?case by (simp add: sanitizeJsonString_simps)
next
  case (inj_comma t t')
  then have "closes t'" using closes_injected(2) by blast
  with inj_comma show ?case by (simp add: sanitizeJsonString_simps)
next
  case (gap_space c t t')
  then have "c \<noteq> 44" by (auto simp: is_space_def)
  with gap_space show ?case by (simp add: sanitizeJsonString_simps)
next
  case (gap_closer c t t')
  then have "c \<noteq> 44" by (auto simp: is_closer_def)
  with gap_closer show ?case by (simp add: sanitizeJsonString_simps)
qed


lemma closes_simps:
  "closes (93 # s)" "closes (125 # s)" "closes (10 # s) = closes s" "closes (32 # s) = closes s"
  by (simp_all add: is_closer_def is_space_def)

text \<open>
  Claim C2, as amended. Let \<open>t\<close> be a text in which no comma is followed, after optional
  white space, by a closing brace or bracket. A valid JSON document is such a text unless
  one of its string literals holds such a comma. For every text \<open>t'\<close> obtained from \<open>t\<close>
  by injecting trailing commas before closing braces and brackets, at any depth and across
  lines, the sanitizer returns \<open>t\<close> itself: whatever a parser makes of the original
  document, it makes of the sanitizer's output.
\<close>

theorem sanitizeJsonString_injected:
  "injected t t' \<Longrightarrow> no_trailing_comma t \<Longrightarrow>
     sanitizeJsonString t' = t \<and> parse (sanitizeJsonString t') = parse t"
  using sanitize_injected(1) [of t t'] by simp

theorem sanitizeJsonString_injected_witness:
  "injected (js ''{\"a\":[1,2]'' @ [10] @ js ''}'') (js ''{\"a\":[1,2,],'' @ [10] @ js ''}'')
   \<and> no_trailing_comma (js ''{\"a\":[1,2]'' @ [10] @ js ''}'')
   \<and> sanitizeJsonString (js ''{\"a\":[1,2,],'' @ [10] @ js ''}'')
       = js ''{\"a\":[1,2]'' @ [10] @ js ''}''"
proof -
  have clean: "no_trailing_comma (js ''{\"a\":[1,2]'' @ [10] @ js ''}'')"
    by (simp add: js_simps is_closer_def is_space_def)
  have inj: "injected (js ''{\"a\":[1,2]'' @ [10] @ js ''}'') (js ''{\"a\":[1,2,],'' @ [10] @ js ''}'')"
    apply (simp add: js_simps)
    apply (rule inj_keep)+
    apply (rule inj_comma, simp add: is_closer_def)
    apply (rule gap_closer, simp add: is_closer_def)
    apply (rule inj_comma, simp add: is_closer_def is_space_def)
    apply (rule gap_space, simp add: is_space_def)
    apply (rule gap_closer, simp add: is_closer_def)
    apply (rule inj_end)
    done
  from sanitizeJsonString_injected [where parse = "\<lambda>s. s", OF inj clean] inj clean
  show ?thesis by simp
qed


lemma JSON_stringify_samples:
  "JSON_stringify (js ''a,]'') = js ''\"a,]\"''" "JSON_stringify (js ''a]'') = js ''\"a]\"''"
  by (simp_all add: JSON_stringify_def js_simps quote_unit_def is_leading_surrogate_def
      is_trailing_surrogate_def)

text \<open>
  Claim C2 as stated fails on a document with a string literal that holds a comma before
  a bracket. The document is the JSON text of the array whose one element is the string
  \<^verbatim>\<open>a,]\<close>; with a trailing comma injected before its closing bracket, the
  sanitizer returns the JSON text of the array whose one element is the string
  \<^verbatim>\<open>a]\<close>.
\<close>

theorem sanitizeJsonString_injected_counterexample:
  "injected ([91] @ JSON_stringify (js ''a,]'') @ [93]) ([91] @ JSON_stringify (js ''a,]'') @ [44, 93])
   \<and> sanitizeJsonString ([91] @ JSON_stringify (js ''a,]'') @ [44, 93])
       = [91] @ JSON_stringify (js ''a]'') @ [93]
   \<and> js ''a]'' \<noteq> js ''a,]''"
proof -
  have "injected ([91] @ JSON_stringify (js ''a,]'') @ [93]) ([91] @ JSON_stringify (js ''a,]'') @ [44, 93])"
    unfolding JSON_stringify_samples
    apply (simp add: js_simps)
    apply (rule inj_keep)+
    apply (rule inj_comma, simp add: is_closer_def)
    apply (rule gap_closer, simp add: is_closer_def)
    apply (rule inj_end)
    done
  moreover have "sanitizeJsonString ([91] @ JSON_stringify (js ''a,]'') @ [44, 93])
       = [91] @ JSON_stringify (js ''a]'') @ [93]"
    unfolding JSON_stringify_samples
    by (simp add: js_simps sanitizeJsonString_simps is_closer_def is_space_def)
  ultimately show ?thesis by (simp add: js_simps)
qed

section \<open>The fence pattern and the sanitization pipeline\<close>

subsection \<open>The repetitions\<close>

lemma star_first:
  "k (i + length (takeWhile p s), dropWhile p s, caps) = Some m \<Longrightarrow> star p k i s caps = Some m"
  by (induction s arbitrary: i) auto

lemma star_stop:
  "s = [] \<or> \<not> p (hd s) \<Longrightarrow> star p k i s caps = k (i, s, caps)"
  by (cases s) auto

lemma star_sound:
  "star p k i s caps = Some m \<Longrightarrow>
     \<exists>w s'. s = w @ s' \<and> (\<forall>c \<in> set w. p c) \<and> k (i + length w, s', caps) = Some m"
proof (induction s arbitrary: i)
  case Nil
  then show ?case by simp
next
  case (Cons c cs)
  show ?case
  proof (cases "p c \<and> star p k (Suc i) cs caps = Some m")
    case True
    with Cons.IH [of "Suc i"] obtain w s' where
      "cs = w @ s'" "\<forall>c \<in> set w. p c" "k (Suc i + length w, s', caps) = Some m"
      by blast
    with True have "c # cs = (c # w) @ s' \<and> (\<forall>x \<in> set (c # w). p x)
        \<and> k (i + length (c # w), s', caps) = Some m"
      by simp
    then show ?thesis by blast
  next
    case False
    with Cons.prems have "k (i, c # cs, caps) = Some m"
      by (auto split: if_splits option.splits)
    then have "c # cs = [] @ (c # cs) \<and> (\<forall>x \<in> set []. p x)
        \<and> k (i + length ([]::jsstring), c # cs, caps) = Some m"
      by simp
    then show ?thesis by blast
  qed
qed

lemma lazy_star_now:
  "k (i, s, caps) = Some m \<Longrightarrow> lazy_star p k i s caps = Some m"
  by (cases s) auto

lemma lazy_star_first:
  assumes "\<forall>c \<in> set w. p c"
    and "\<And>w1 w2. w = w1 @ w2 \<Longrightarrow> w2 \<noteq> [] \<Longrightarrow> k (i + length w1, w2 @ s, caps) = None"
    and "k (i + length w, s, caps) = Some m"
  shows "lazy_star p k i (w @ s) caps = Some m"
  using assms
proof (induction w arbitrary: i)
  case Nil
  then show ?case by (simp add: lazy_star_now)
next
  case (Cons c w)
  from Cons.prems(2) [of "[]" "c # w"] have now: "k (i, c # w @ s, caps) = None" by simp
  have later: "lazy_star p k (Suc i) (w @ s) caps = Some m"
  proof (rule Cons.IH)
    show "\<forall>c \<in> set w. p c" using Cons.prems(1) by simp
    show "k (Suc i + length w1, w2 @ s, caps) = None" if "w = w1 @ w2" "w2 \<noteq> []" for w1 w2
      using Cons.prems(2) [of "c # w1" w2] that by simp
    show "k (Suc i + length w, s, caps) = Some m" using Cons.prems(3) by simp
  qed
  from Cons.prems(1) now later show ?case by simp
qed

lemma lazy_star_sound:
  "lazy_star p k i s caps = Some m \<Longrightarrow>
     \<exists>w s'. s = w @ s' \<and> (\<forall>c \<in> set w. p c) \<and> k (i + length w, s', caps) = Some m"
proof (induction s arbitrary: i)
  case Nil
  then show ?case by simp
next
  case (Cons c cs)
  show ?case
  proof (cases "k (i, c # cs, caps)")
    case (Some m')
    with Cons.prems have "k (i, c # cs, caps) = Some m" by simp
    then have "c # cs = [] @ (c # cs) \<and> (\<forall>x \<in> set []. p x)
        \<and> k (i + length ([]::jsstring), c # cs, caps) = Some m"
      by simp
    then show ?thesis by blast
  next
    case None
    with Cons.prems have c: "p c" and "lazy_star p k (Suc i) cs caps = Some m"
      by (auto split: if_splits)
    with Cons.IH [of "Suc i"] obtain w s' where
      "cs = w @ s'" "\<forall>c \<in> set w. p c" "k (Suc i + length w, s', caps) = Some m"
      by blast
    with c have "c # cs = (c # w) @ s' \<and> (\<forall>x \<in> set (c # w). p x)
        \<and> k (i + length (c # w), s', caps) = Some m"
      by simp
    then show ?thesis by blast
  qed
qed

subsection \<open>A match consumes a prefix of the input\<close>

lemma matcher_sound:
  "matcher r k (i, s, caps) = Some m \<Longrightarrow>
     \<exists>i' s' caps'. suffix s' s \<and> k (i', s', caps') = Some m"
proof (induction r arbitrary: k i s caps)
  case (Chars l)
  then have "k (i + length l, drop (length l) s, caps) = Some m"
    by (auto split: if_splits)
  then show ?case using suffix_drop by blast
next
  case (Class p)
  then obtain c cs where "s = c # cs" "k (Suc i, cs, caps) = Some m"
    by (auto split: list.splits if_splits)
  then show ?case by (meson suffix_ConsI suffix_order.order_refl)
next
  case (Star p)
  then have "star p k i s caps = Some m" by simp
  from star_sound [OF this] show ?case by (metis suffix_def)
next
  case (LazyStar p)
  then have "lazy_star p k i s caps = Some m" by simp
  from lazy_star_sound [OF this] show ?case by (metis suffix_def)
next
  case (Opt r)
  show ?case
  proof (cases "matcher r (\<lambda>st'. if fst st' = i then None else k st') (i, s, caps)")
    case None
    with Opt.prems have "k (i, s, caps) = Some m" by simp
    then show ?thesis by (meson suffix_order.order_refl)
  next
    case (Some m')
    with Opt.prems have "matcher r (\<lambda>st'. if fst st' = i then None else k st') (i, s, caps) = Some m"
      by simp
    from Opt.IH [OF this] obtain i' s' caps' where
      "suffix s' s" "(if fst (i', s', caps') = i then None else k (i', s', caps')) = Some m"
      by blast
    then have "suffix s' s \<and> k (i', s', caps') = Some m" by (auto split: if_splits)
    then show ?thesis by blast
  qed
next
  case (Group n r)
  then have "matcher r (\<lambda>st'. case st' of (i', s', caps') \<Rightarrow>
      k (i', s', caps'(n \<mapsto> take (i' - i) s))) (i, s, caps) = Some m"
    by simp
  from Group.IH [OF this] show ?case by auto
next
  case (Seq a b)
  then have "matcher a (matcher b k) (i, s, caps) = Some m" by simp
  from Seq.IH(1) [OF this] obtain i1 s1 caps1 where
    1: "suffix s1 s" "matcher b k (i1, s1, caps1) = Some m" by blast
  from Seq.IH(2) [OF 1(2)] obtain i2 s2 caps2 where
    "suffix s2 s1" "k (i2, s2, caps2) = Some m" by blast
  with 1(1) show ?case by (meson suffix_order.order_trans)
next
  case Bol
  then have "k (i, s, caps) = Some m" by (auto split: if_splits)
  then show ?case by (meson suffix_order.order_refl)
next
  case Eol
  then have "k (i, s, caps) = Some m" by (auto split: if_splits)
  then show ?case by (meson suffix_order.order_refl)
next
  case (Lookahead r)
  then obtain caps' where "k (i, s, caps') = Some m"
    by (auto split: option.splits)
  then show ?case by (meson suffix_order.order_refl)
qed


subsection \<open>The fence pattern\<close>

lemma takeWhile_append_stop:
  "ys \<noteq> [] \<Longrightarrow> \<not> p (hd ys) \<Longrightarrow> takeWhile p (xs @ ys) = takeWhile p xs"
  by (induction xs) (auto simp: neq_Nil_conv)

lemma dropWhile_append_stop:
  "ys \<noteq> [] \<Longrightarrow> \<not> p (hd ys) \<Longrightarrow> dropWhile p (xs @ ys) = dropWhile p xs @ ys"
  by (induction xs) (auto simp: neq_Nil_conv)

lemma fence_facts:
  "fence \<noteq> []" "\<not> is_space (hd fence)" "\<not> is_word (hd fence)" "\<not> is_newline (hd fence)"
  "length fence = 3"
  by (simp_all add: fence_def is_space_def is_word_def is_newline_def)

lemma fence_no_space:
  "takeWhile is_space fence = []" "dropWhile is_space fence = fence"
  by (simp_all add: fence_def is_space_def)

lemma newline_is_space: "is_newline c \<Longrightarrow> is_space c"
  by (simp add: is_newline_def is_space_def)

lemma spaces_before_fence:
  "w @ fence = w' @ fence \<Longrightarrow> w = w'"
  by simp

text \<open>The end of the pattern: white space, the closing fence and the end of the input.\<close>

lemma closing_tail:
  "matcher (Star is_space) (matcher (Chars fence) (matcher Eol Some)) (i, s, caps) =
     (if \<exists>w. s = w @ fence \<and> (\<forall>c \<in> set w. is_space c) then Some (i + length s, [], caps)
      else None)"
proof (cases "\<exists>w. s = w @ fence \<and> (\<forall>c \<in> set w. is_space c)")
  case True
  then obtain w where w: "s = w @ fence" "\<forall>c \<in> set w. is_space c" by blast
  then have tw: "takeWhile is_space s = w" and dw: "dropWhile is_space s = fence"
    by (simp_all add: fence_no_space)
  have "star is_space (matcher (Chars fence) (matcher Eol Some)) i s caps
      = Some (i + length s, [], caps)"
  proof (rule star_first)
    have "length s = length w + 3" using w(1) fence_facts(5) by simp
    then show "matcher (Chars fence) (matcher Eol Some)
        (i + length (takeWhile is_space s), dropWhile is_space s, caps)
      = Some (i + length s, [], caps)"
      unfolding tw dw by (simp add: fence_facts(5))
  qed
  with True show ?thesis by simp
next
  case False
  have "matcher (Star is_space) (matcher (Chars fence) (matcher Eol Some)) (i, s, caps) = None"
  proof (rule ccontr)
    assume "matcher (Star is_space) (matcher (Chars fence) (matcher Eol Some)) (i, s, caps) \<noteq> None"
    then obtain m where "star is_space (matcher (Chars fence) (matcher Eol Some)) i s caps = Some m"
      by auto
    from star_sound [OF this] obtain w s' where
      w: "s = w @ s'" "\<forall>c \<in> set w. is_space c"
      and "matcher (Chars fence) (matcher Eol Some) (i + length w, s', caps) = Some m"
      by blast
    then have "prefix fence s'" "drop (length fence) s' = []"
      by (auto split: if_splits)
    then have "s' = fence"
      by (auto simp: prefix_def)
    with w False show False by blast
  qed
  with False show ?thesis by simp
qed

lemma opt_class_stop:
  "s = [] \<or> \<not> p (hd s) \<Longrightarrow> matcher (Opt (Class p)) k (i, s, caps) = k (i, s, caps)"
  by (cases s) auto

lemma closing:
  "matcher (Opt (Class is_newline))
     (matcher (Star is_space) (matcher (Chars fence) (matcher Eol Some))) (i, s, caps) =
     (if \<exists>w. s = w @ fence \<and> (\<forall>c \<in> set w. is_space c) then Some (i + length s, [], caps)
      else None)"
proof (cases "s \<noteq> [] \<and> is_newline (hd s)")
  case False
  then have "s = [] \<or> \<not> is_newline (hd s)" by blast
  from opt_class_stop [where p = is_newline and s = s, OF this]
  have "matcher (Opt (Class is_newline))
        (matcher (Star is_space) (matcher (Chars fence) (matcher Eol Some))) (i, s, caps)
      = matcher (Star is_space) (matcher (Chars fence) (matcher Eol Some)) (i, s, caps)" .
  then show ?thesis by (simp only: closing_tail)
next
  case True
  then obtain cs where s: "s = 10 # cs"
    by (cases s) (auto simp: is_newline_def)
  show ?thesis
  proof (cases "\<exists>w. cs = w @ fence \<and> (\<forall>c \<in> set w. is_space c)")
    case True
    then obtain w where "cs = w @ fence" "\<forall>c \<in> set w. is_space c" by blast
    then have "s = (10 # w) @ fence \<and> (\<forall>c \<in> set (10 # w). is_space c)"
      using s by (simp add: is_space_def)
    then have ex: "\<exists>w. s = w @ fence \<and> (\<forall>c \<in> set w. is_space c)" by blast
    have "matcher (Star is_space) (matcher (Chars fence) (matcher Eol Some)) (Suc i, cs, caps)
        = Some (Suc i + length cs, [], caps)"
      using True by (simp only: closing_tail if_True)
    then show ?thesis
      using ex s by (simp add: is_newline_def)
  next
    case False
    then have "matcher (Star is_space) (matcher (Chars fence) (matcher Eol Some)) (Suc i, cs, caps)
        = None"
      by (simp only: closing_tail if_False)
    then have "matcher (Opt (Class is_newline))
        (matcher (Star is_space) (matcher (Chars fence) (matcher Eol Some))) (i, s, caps)
      = matcher (Star is_space) (matcher (Chars fence) (matcher Eol Some)) (i, s, caps)"
      using s by (simp add: is_newline_def)
    then show ?thesis by (simp only: closing_tail)
  qed
qed


lemma trim_parts:
  "\<exists>ws. dropWhile is_space r = trim r @ ws \<and> (\<forall>c \<in> set ws. is_space c)"
  "trim r = [] \<or> \<not> is_space (last (trim r))"
  "dropWhile is_space r = [] \<or> \<not> is_space (hd (dropWhile is_space r))"
proof -
  let ?r2 = "dropWhile is_space r"
  have "?r2 = rev (takeWhile is_space (rev ?r2) @ dropWhile is_space (rev ?r2))"
    by (simp only: takeWhile_dropWhile_id rev_rev_ident)
  then have "?r2 = trim r @ rev (takeWhile is_space (rev ?r2))"
    unfolding trim_def by (simp only: rev_append)
  moreover have "\<forall>c \<in> set (rev (takeWhile is_space (rev ?r2))). is_space c"
    by (auto dest: set_takeWhileD)
  ultimately show "\<exists>ws. ?r2 = trim r @ ws \<and> (\<forall>c \<in> set ws. is_space c)" by blast
  show "trim r = [] \<or> \<not> is_space (last (trim r))"
    using hd_dropWhile [of is_space "rev ?r2"] by (auto simp: trim_def last_rev)
  show "?r2 = [] \<or> \<not> is_space (hd ?r2)"
    using hd_dropWhile [of is_space r] by blast
qed

lemma group2_match:
  assumes ws: "\<forall>c \<in> set ws. is_space c" and body: "body = [] \<or> \<not> is_space (last body)"
  shows "matcher (Group 2 (LazyStar any_char))
           (matcher (Opt (Class is_newline))
              (matcher (Star is_space) (matcher (Chars fence) (matcher Eol Some))))
           (j, body @ ws @ fence, caps)
         = Some (j + length (body @ ws @ fence), [], caps(2 \<mapsto> body))"
proof -
  define K where "K = (\<lambda>st'. case st' of (i', s', caps') \<Rightarrow>
      matcher (Opt (Class is_newline))
        (matcher (Star is_space) (matcher (Chars fence) (matcher Eol Some)))
        (i', s', caps'(2 \<mapsto> take (i' - j) (body @ ws @ fence))))"
  have "lazy_star any_char K j (body @ (ws @ fence)) caps
      = Some (j + length (body @ ws @ fence), [], caps(2 \<mapsto> body))"
  proof (rule lazy_star_first)
    show "\<forall>c \<in> set body. any_char c" by (simp add: any_char_def)
  next
    fix w1 w2 assume split: "body = w1 @ w2" "w2 \<noteq> []"
    have "\<not> (\<exists>w. w2 @ ws @ fence = w @ fence \<and> (\<forall>c \<in> set w. is_space c))"
    proof
      assume "\<exists>w. w2 @ ws @ fence = w @ fence \<and> (\<forall>c \<in> set w. is_space c)"
      then have "\<forall>c \<in> set (w2 @ ws). is_space c" by auto
      with split have "is_space (last body)" by simp
      with body split show False by simp
    qed
    then show "K (j + length w1, w2 @ ws @ fence, caps) = None"
      unfolding K_def by (simp only: closing prod.case if_False)
  next
    have "\<exists>w. ws @ fence = w @ fence \<and> (\<forall>c \<in> set w. is_space c)"
      using ws by blast
    then show "K (j + length body, ws @ fence, caps)
        = Some (j + length (body @ ws @ fence), [], caps(2 \<mapsto> body))"
      unfolding K_def by (simp only: closing prod.case if_True) simp
  qed
  then show ?thesis
    unfolding K_def by (simp only: matcher.simps(4,6) prod.case)
qed

lemma interior_match:
  "matcher (Star is_space)
     (matcher (Opt (Class is_newline))
        (matcher (Group 2 (LazyStar any_char))
           (matcher (Opt (Class is_newline))
              (matcher (Star is_space) (matcher (Chars fence) (matcher Eol Some))))))
     (j, r @ fence, caps)
   = Some (j + length (r @ fence), [], caps(2 \<mapsto> trim r))"
proof -
  let ?G = "matcher (Group 2 (LazyStar any_char))
           (matcher (Opt (Class is_newline))
              (matcher (Star is_space) (matcher (Chars fence) (matcher Eol Some))))"
  define r2 where "r2 = dropWhile is_space r"
  define ws1 where "ws1 = takeWhile is_space r"
  from trim_parts(1) [of r] obtain ws where
    ws: "r2 = trim r @ ws" "\<forall>c \<in> set ws. is_space c" unfolding r2_def by blast
  have tw: "takeWhile is_space (r @ fence) = ws1"
    and dw: "dropWhile is_space (r @ fence) = r2 @ fence"
    unfolding r2_def ws1_def
    using fence_facts(1,2) by (simp_all add: takeWhile_append_stop dropWhile_append_stop)
  have "length (ws1 @ r2) = length r"
    unfolding r2_def ws1_def by (simp only: takeWhile_dropWhile_id)
  then have len: "length ws1 + length (trim r @ ws @ fence) = length (r @ fence)"
    using ws(1) by simp
  have stop: "r2 @ fence = [] \<or> \<not> is_newline (hd (r2 @ fence))"
  proof (cases r2)
    case Nil
    then show ?thesis using fence_facts(4) by simp
  next
    case (Cons c cs)
    with trim_parts(3) [of r] have "\<not> is_space c" unfolding r2_def by auto
    with Cons show ?thesis using newline_is_space by auto
  qed
  have "?G (j + length ws1, r2 @ fence, caps)
      = Some (j + length ws1 + length (trim r @ ws @ fence), [], caps(2 \<mapsto> trim r))"
    using group2_match [OF ws(2) trim_parts(2) [of r]] by (simp only: ws(1) append_assoc)
  also have "j + length ws1 + length (trim r @ ws @ fence) = j + length (r @ fence)"
    using len by simp
  finally have "matcher (Opt (Class is_newline)) ?G (j + length ws1, r2 @ fence, caps)
      = Some (j + length (r @ fence), [], caps(2 \<mapsto> trim r))"
    by (simp only: opt_class_stop [where p = is_newline, OF stop])
  then have "star is_space (matcher (Opt (Class is_newline)) ?G) j (r @ fence) caps
      = Some (j + length (r @ fence), [], caps(2 \<mapsto> trim r))"
    by (intro star_first) (simp only: tw dw)
  then show ?thesis by (simp only: matcher.simps(3) prod.case)
qed


lemma tag_match:
  assumes K: "\<And>caps'. K (i + length (takeWhile is_word mid), dropWhile is_word mid @ fence, caps')
                = Some (n, [], caps'(2 \<mapsto> b))"
  shows "\<exists>caps'. matcher (Opt (Group 1 (Star is_word))) K (i, mid @ fence, caps)
            = Some (n, [], caps') \<and> caps' 2 = Some b"
proof -
  define tag where "tag = takeWhile is_word mid"
  define r where "r = dropWhile is_word mid"
  have tw: "takeWhile is_word (mid @ fence) = tag"
    and dw: "dropWhile is_word (mid @ fence) = r @ fence"
    unfolding tag_def r_def
    using fence_facts(1,3) by (simp_all add: takeWhile_append_stop dropWhile_append_stop)
  define K1 where "K1 = (\<lambda>st'. if fst st' = i then None else K st')"
  define K2 where "K2 = (\<lambda>st'. case st' of (i', s', caps') \<Rightarrow>
      K1 (i', s', caps'(1 \<mapsto> take (i' - i) (mid @ fence))))"
  have unfold: "matcher (Opt (Group 1 (Star is_word))) K (i, mid @ fence, caps)
      = (case star is_word K2 i (mid @ fence) caps of Some m \<Rightarrow> Some m
         | None \<Rightarrow> K (i, mid @ fence, caps))"
    unfolding K2_def K1_def by (simp only: matcher.simps(3,5,6) prod.case fst_conv)
  show ?thesis
  proof (cases "tag = []")
    case True
    then have "mid @ fence = [] \<or> \<not> is_word (hd (mid @ fence))"
      using tw by (metis takeWhile_eq_Nil_iff list.set_sel(1))
    then have "star is_word K2 i (mid @ fence) caps = K2 (i, mid @ fence, caps)"
      by (rule star_stop)
    also have "\<dots> = None" by (simp add: K2_def K1_def)
    finally have opt: "matcher (Opt (Group 1 (Star is_word))) K (i, mid @ fence, caps)
        = K (i, mid @ fence, caps)"
      by (simp only: unfold option.case)
    have "tag @ r = mid" unfolding tag_def r_def by (rule takeWhile_dropWhile_id)
    with True have mid: "r = mid" by simp
    from K [of caps] have "K (i + length tag, r @ fence, caps) = Some (n, [], caps(2 \<mapsto> b))"
      unfolding tag_def r_def .
    with True mid have "K (i, mid @ fence, caps) = Some (n, [], caps(2 \<mapsto> b))" by simp
    with opt show ?thesis by simp
  next
    case False
    have "K2 (i + length tag, r @ fence, caps)
        = K (i + length tag, r @ fence, caps(1 \<mapsto> take (length tag) (mid @ fence)))"
      using False by (simp add: K2_def K1_def)
    also have "\<dots> = Some (n, [], caps(1 \<mapsto> take (length tag) (mid @ fence), 2 \<mapsto> b))"
      using K unfolding tag_def r_def by simp
    finally have "star is_word K2 i (mid @ fence) caps
        = Some (n, [], caps(1 \<mapsto> take (length tag) (mid @ fence), 2 \<mapsto> b))"
      by (intro star_first) (simp only: tw dw)
    then have "matcher (Opt (Group 1 (Star is_word))) K (i, mid @ fence, caps)
        = Some (n, [], caps(1 \<mapsto> take (length tag) (mid @ fence), 2 \<mapsto> b))"
      by (simp only: unfold option.case)
    then show ?thesis by simp
  qed
qed

lemma matcher_Seq: "matcher (Seq a b) k = matcher a (matcher b k)"
  by (rule ext) simp

lemma matcher_fenceRegex_unfold:
  "matcher fenceRegex k st =
     matcher Bol (matcher (Chars fence)
       (matcher (Opt (Group 1 (Star is_word)))
          (matcher (Star is_space)
             (matcher (Opt (Class is_newline))
                (matcher (Group 2 (LazyStar any_char))
                   (matcher (Opt (Class is_newline))
                      (matcher (Star is_space)
                         (matcher (Chars fence) (matcher Eol k))))))))) st"
  by (simp only: fenceRegex_def fenceInterior_def seq.simps matcher_Seq)

lemma matcher_fenceRegex_parts:
  "matcher fenceRegex k st =
     matcher Bol (matcher (Chars fence)
       (matcher fenceInterior (matcher (Chars fence) (matcher Eol k)))) st"
  by (simp only: fenceRegex_def seq.simps matcher_Seq)

lemma fence_match:
  "\<exists>n caps. matcher fenceRegex Some (0, fence @ mid @ fence, Map.empty) = Some (n, [], caps)
      \<and> caps 2 = Some (trim (dropWhile is_word mid))"
proof -
  let ?K = "matcher (Star is_space)
             (matcher (Opt (Class is_newline))
                (matcher (Group 2 (LazyStar any_char))
                   (matcher (Opt (Class is_newline))
                      (matcher (Star is_space)
                         (matcher (Chars fence) (matcher Eol Some))))))"
  let ?n = "3 + length (takeWhile is_word mid) + length (dropWhile is_word mid @ fence)"
  have "\<exists>caps'. matcher (Opt (Group 1 (Star is_word))) ?K (3, mid @ fence, Map.empty)
      = Some (?n, [], caps') \<and> caps' 2 = Some (trim (dropWhile is_word mid))"
    by (rule tag_match) (rule interior_match)
  then obtain caps' where
    "matcher (Opt (Group 1 (Star is_word))) ?K (3, mid @ fence, Map.empty) = Some (?n, [], caps')"
    "caps' 2 = Some (trim (dropWhile is_word mid))"
    by blast
  then have "matcher fenceRegex Some (0, fence @ mid @ fence, Map.empty) = Some (?n, [], caps')
      \<and> caps' 2 = Some (trim (dropWhile is_word mid))"
    unfolding matcher_fenceRegex_unfold by (simp add: fence_facts(5))
  then show ?thesis by blast
qed

lemma String_match_fenced:
  "\<exists>caps. String_match fenceRegex (fence @ mid @ fence) = Some caps
      \<and> caps 2 = Some (trim (dropWhile is_word mid))"
proof -
  from fence_match [of mid] obtain n caps where
    m: "matcher fenceRegex Some (0, fence @ mid @ fence, Map.empty) = Some (n, [], caps)"
    "caps 2 = Some (trim (dropWhile is_word mid))"
    by blast
  obtain c cs where "fence @ mid @ fence = c # cs"
    using fence_facts(1) by (cases "fence @ mid @ fence") auto
  with m have "exec_from fenceRegex 0 (fence @ mid @ fence) = Some (n, [], caps)"
    by simp
  with m(2) show ?thesis by (simp add: String_match_def)
qed

lemma fenced_parts:
  assumes "prefix fence t" "suffix fence t" "6 \<le> length t"
  shows "t = fence @ take (length t - 6) (drop 3 t) @ fence"
proof -
  from assms(1) obtain t1 where t1: "t = fence @ t1" by (auto simp: prefix_def)
  from assms(2) obtain u where u: "t = u @ fence" by (auto simp: suffix_def)
  have "t1 = drop 3 t" using t1 fence_facts(5) by simp
  also have "\<dots> = drop 3 u @ fence" using u assms(3) fence_facts(5) by simp
  finally have "t1 = drop 3 u @ fence" .
  then have "take (length t - 6) (drop 3 t) = drop 3 u"
    using t1 fence_facts(5) by simp
  with t1 \<open>t1 = drop 3 u @ fence\<close> show ?thesis by simp
qed

lemma exec_from_fence_later:
  "0 < i \<Longrightarrow> exec_from fenceRegex i s = None"
  by (induction s arbitrary: i) (simp_all add: matcher_fenceRegex_unfold)

lemma matcher_fence_shape:
  assumes "matcher fenceRegex Some (0, t, Map.empty) = Some m"
  shows "prefix fence t \<and> suffix fence t \<and> 6 \<le> length t"
proof -
  let ?end = "matcher (Chars fence) (matcher Eol Some)"
  from assms have pre: "prefix fence t"
    and inner: "matcher fenceInterior ?end (3, drop 3 t, Map.empty) = Some m"
    unfolding matcher_fenceRegex_parts by (auto simp: fence_facts(5) split: if_splits)
  from matcher_sound [OF inner] obtain i' s' caps' where
    s': "suffix s' (drop 3 t)" "?end (i', s', caps') = Some m" by blast
  from s'(2) have "prefix fence s'" "drop (length fence) s' = []"
    by (auto split: if_splits)
  then have "s' = fence" by (auto simp: prefix_def)
  with s'(1) have suf: "suffix fence (drop 3 t)" by simp
  then have "suffix fence t" by (meson suffix_drop suffix_order.order_trans)
  moreover from suf have "3 \<le> length (drop 3 t)"
    using fence_facts(5) by (metis suffix_length_le)
  ultimately show ?thesis using pre by simp
qed

lemma String_match_unfenced:
  assumes "\<not> (prefix fence t \<and> suffix fence t \<and> 6 \<le> length t)"
  shows "String_match fenceRegex t = None"
proof -
  have first: "matcher fenceRegex Some (0, t, Map.empty) = None"
    using matcher_fence_shape [of t] assms by (cases "matcher fenceRegex Some (0, t, Map.empty)") auto
  have "exec_from fenceRegex 0 t = None"
  proof (cases t)
    case Nil
    with first show ?thesis by simp
  next
    case (Cons c cs)
    with first exec_from_fence_later [of "Suc 0" cs] show ?thesis by simp
  qed
  then show ?thesis by (simp add: String_match_def)
qed

lemma trim_trim: "trim (trim s) = trim s"
proof -
  define d where "d = dropWhile is_space s"
  define e where "e = rev (dropWhile is_space (rev d))"
  have e: "trim s = e" by (simp add: trim_def d_def e_def)
  have "e = [] \<or> \<not> is_space (last e)"
    using trim_parts(2) [of s] e by simp
  then have rear: "dropWhile is_space (rev e) = rev e"
    by (cases "rev e") (auto simp: last_rev [symmetric] simp del: last_rev)
  obtain ws where "d = e @ ws" using trim_parts(1) [of s] e d_def by auto
  moreover have "d = [] \<or> \<not> is_space (hd d)"
    using trim_parts(3) [of s] d_def by simp
  ultimately have "e = [] \<or> \<not> is_space (hd e)" by (cases e) auto
  then have front: "dropWhile is_space e = e" by (cases e) auto
  show ?thesis
    unfolding e by (simp add: trim_def front rear)
qed

lemma sanitizedJsonStr_unfenced:
  "sanitizedJsonStr text = sanitizeJsonString (unfenced (trim text))"
proof (cases "prefix fence (trim text) \<and> suffix fence (trim text) \<and> 6 \<le> length (trim text)")
  case False
  have "unfenced (trim text) = trim text"
    by (simp only: unfenced_def if_not_P [OF False])
  then show ?thesis
    by (simp add: sanitizedJsonStr_def String_match_unfenced [OF False])
next
  case True
  define mid where "mid = take (length (trim text) - 6) (drop 3 (trim text))"
  from True have t: "trim text = fence @ mid @ fence"
    unfolding mid_def by (intro fenced_parts) simp_all
  from String_match_fenced [of mid] obtain caps where
    "String_match fenceRegex (trim text) = Some caps" "caps 2 = Some (trim (dropWhile is_word mid))"
    unfolding t by blast
  then have "sanitizedJsonStr text =
      sanitizeJsonString (if trim (dropWhile is_word mid) \<noteq> [] then trim (dropWhile is_word mid)
                          else trim text)"
    by (simp add: sanitizedJsonStr_def trim_trim)
  with True show ?thesis
    by (simp add: unfenced_def mid_def Let_def)
qed


lemma space_not_word: "is_space c \<Longrightarrow> \<not> is_word c"
  by (auto simp: is_space_def is_word_def)

lemma trim_id:
  "s \<noteq> [] \<Longrightarrow> \<not> is_space (hd s) \<Longrightarrow> \<not> is_space (last s) \<Longrightarrow> trim s = s"
proof -
  assume s: "s \<noteq> []" "\<not> is_space (hd s)" "\<not> is_space (last s)"
  then have "dropWhile is_space s = s" by (cases s) auto
  moreover from s have "dropWhile is_space (rev s) = rev s"
    by (cases "rev s") (auto simp: last_rev [symmetric] simp del: last_rev)
  ultimately show ?thesis by (simp add: trim_def)
qed

lemma dropWhile_run:
  "\<forall>c \<in> set ws. p c \<Longrightarrow> \<not> p a \<Longrightarrow> dropWhile p (ws @ a # l) = a # l"
  by (induction ws) auto

lemma trim_between:
  assumes "\<forall>c \<in> set ws1. is_space c" "\<forall>c \<in> set ws2. is_space c"
    and "x \<noteq> []" "\<not> is_space (hd x)" "\<not> is_space (last x)"
  shows "trim (ws1 @ x @ ws2) = x"
proof -
  have "dropWhile is_space (ws1 @ x @ ws2) = x @ ws2"
    using assms(1,3,4) by (cases x) (simp_all add: dropWhile_run)
  moreover have "dropWhile is_space (rev ws2 @ rev x) = rev x"
  proof (cases "rev x")
    case Nil
    with assms(3) show ?thesis by simp
  next
    case (Cons a l)
    then have "last x = a" by (metis last_rev list.sel(1) rev_rev_ident)
    with assms(2,5) Cons show ?thesis by (simp add: dropWhile_run)
  qed
  ultimately show ?thesis by (simp add: trim_def)
qed

lemma unfenced_fenced:
  assumes tag: "\<forall>c \<in> set tag. is_word c"
    and ws: "\<forall>c \<in> set ws1. is_space c" "\<forall>c \<in> set ws2. is_space c"
    and x: "x \<noteq> []" "\<not> is_space (hd x)" "\<not> is_space (last x)"
    and stop: "ws1 \<noteq> [] \<or> \<not> is_word (hd x)"
  shows "trim (fence @ tag @ ws1 @ x @ ws2 @ fence) = fence @ tag @ ws1 @ x @ ws2 @ fence"
    and "unfenced (fence @ tag @ ws1 @ x @ ws2 @ fence) = x"
proof -
  let ?t = "fence @ tag @ ws1 @ x @ ws2 @ fence"
  show "trim ?t = ?t"
    by (rule trim_id) (simp_all add: fence_def is_space_def)
  have shape: "prefix fence ?t \<and> suffix fence ?t \<and> 6 \<le> length ?t"
    using fence_facts(5) by (simp add: suffix_def)
  have mid: "take (length ?t - 6) (drop 3 ?t) = tag @ ws1 @ x @ ws2"
    using fence_facts(5) by simp
  have "ws1 @ x @ ws2 \<noteq> []" using x(1) by simp
  moreover have "\<not> is_word (hd (ws1 @ x @ ws2))"
  proof (cases ws1)
    case Nil
    with stop x(1) show ?thesis by simp
  next
    case (Cons c cs)
    with ws(1) show ?thesis using space_not_word by simp
  qed
  ultimately have "dropWhile is_word (tag @ ws1 @ x @ ws2) = ws1 @ x @ ws2"
    using tag by (cases "ws1 @ x @ ws2") (simp_all add: dropWhile_run)
  then have "trim (dropWhile is_word (take (length ?t - 6) (drop 3 ?t))) = x"
    using trim_between [OF ws x] by (simp only: mid)
  with x(1) show "unfenced ?t = x"
    unfolding unfenced_def Let_def by (simp only: shape simp_thms if_True if_False)
qed

text \<open>
  Claim C9, as amended. The text handed to the parser is the sanitizer's image of
  \<open>unfenced (trim text)\<close>: the response is trimmed first; when the trimmed response stands
  between an opening and a closing fence, the fences, the run of word characters after
  the opening fence and the white space around the rest are dropped, unless nothing
  would be left, in which case the fenced text is kept as it is; then the trailing commas
  are removed. In particular, for a response that is an opening fence, a language tag,
  white space, an interior that is not empty and neither begins nor ends with white
  space, white space and a closing fence (where the interior does not begin with a word
  character when no white space follows the tag), the result is the interior with its
  trailing commas removed; and for a response that, once trimmed, does not begin or does
  not end with a fence, the result is the trimmed response with its trailing commas
  removed.
\<close>

theorem sanitizedJsonStr_fence:
  "sanitizedJsonStr text = sanitizeJsonString (unfenced (trim text))
   \<and> ((\<forall>c \<in> set tag. is_word c) \<and> (\<forall>c \<in> set ws1. is_space c) \<and> (\<forall>c \<in> set ws2. is_space c)
        \<and> interior \<noteq> [] \<and> \<not> is_space (hd interior) \<and> \<not> is_space (last interior)
        \<and> (ws1 \<noteq> [] \<or> \<not> is_word (hd interior))
      \<longrightarrow> sanitizedJsonStr (fence @ tag @ ws1 @ interior @ ws2 @ fence)
            = sanitizeJsonString interior)
   \<and> (\<not> prefix fence (trim text) \<or> \<not> suffix fence (trim text)
      \<longrightarrow> sanitizedJsonStr text = sanitizeJsonString (trim text))"
proof (intro conjI impI)
  show "sanitizedJsonStr text = sanitizeJsonString (unfenced (trim text))"
    by (rule sanitizedJsonStr_unfenced)
next
  assume "(\<forall>c \<in> set tag. is_word c) \<and> (\<forall>c \<in> set ws1. is_space c) \<and> (\<forall>c \<in> set ws2. is_space c)
        \<and> interior \<noteq> [] \<and> \<not> is_space (hd interior) \<and> \<not> is_space (last interior)
        \<and> (ws1 \<noteq> [] \<or> \<not> is_word (hd interior))"
  then have "trim (fence @ tag @ ws1 @ interior @ ws2 @ fence)
        = fence @ tag @ ws1 @ interior @ ws2 @ fence"
    and "unfenced (fence @ tag @ ws1 @ interior @ ws2 @ fence) = interior"
    using unfenced_fenced [of tag ws1 ws2 interior] by blast+
  then show "sanitizedJsonStr (fence @ tag @ ws1 @ interior @ ws2 @ fence)
      = sanitizeJsonString interior"
    by (simp only: sanitizedJsonStr_unfenced)
next
  assume "\<not> prefix fence (trim text) \<or> \<not> suffix fence (trim text)"
  then have "unfenced (trim text) = trim text"
    unfolding unfenced_def by auto
  then show "sanitizedJsonStr text = sanitizeJsonString (trim text)"
    by (simp only: sanitizedJsonStr_unfenced)
qed


theorem sanitizedJsonStr_fence_witness:
  "sanitizedJsonStr (fence @ js ''json'' @ [10] @ js ''{\"a\":[1,],}'' @ [10] @ fence)
     = js ''{\"a\":[1]}''
   \<and> sanitizedJsonStr (js '' [1,] '') = js ''[1]''"
proof -
  have "sanitizedJsonStr (fence @ js ''json'' @ [10] @ js ''{\"a\":[1,],}'' @ [10] @ fence)
      = sanitizeJsonString (js ''{\"a\":[1,],}'')"
    using sanitizedJsonStr_fence [of "js '' ''" "js ''json''" "[10]" "[10]" "js ''{\"a\":[1,],}''",
        THEN conjunct2, THEN conjunct1]
    by (simp add: js_simps is_word_def is_space_def)
  moreover have "sanitizedJsonStr (js '' [1,] '') = sanitizeJsonString (trim (js '' [1,] ''))"
    using sanitizedJsonStr_fence [of "js '' [1,] ''" "[]" "[]" "[]" "[]",
        THEN conjunct2, THEN conjunct2]
    by (simp add: js_simps trim_def is_space_def fence_def)
  ultimately show ?thesis
    by (simp add: js_simps trim_def is_space_def is_closer_def sanitizeJsonString_simps)
qed

text \<open>
  Claim C9 as stated fails in both halves. The text \<^verbatim>\<open>true\<close> wrapped in fences with no
  line break is returned with its fences, since the pattern reads the interior as the
  language tag and finds nothing after it. The text \<^verbatim>\<open> [1]\<close>, which has no fence
  and no trailing comma, does not pass through unchanged: its leading space is trimmed.
\<close>

theorem sanitizedJsonStr_fence_counterexample:
  "sanitizedJsonStr (fence @ js ''true'' @ fence) = fence @ js ''true'' @ fence
   \<and> fence @ js ''true'' @ fence \<noteq> js ''true''
   \<and> \<not> prefix fence (js '' [1]'')
   \<and> no_trailing_comma (js '' [1]'')
   \<and> sanitizedJsonStr (js '' [1]'') = js ''[1]''
   \<and> js ''[1]'' \<noteq> js '' [1]''"
proof -
  have "unfenced (trim (fence @ js ''true'' @ fence)) = fence @ js ''true'' @ fence"
    by (simp add: unfenced_def trim_def fence_def js_simps is_space_def is_word_def
        suffix_to_prefix)
  moreover have "unfenced (trim (js '' [1]'')) = js ''[1]''"
    by (simp add: unfenced_def trim_def fence_def js_simps is_space_def)
  ultimately show ?thesis
    by (simp add: sanitizedJsonStr_unfenced)
       (simp add: js_simps fence_def sanitizeJsonString_simps is_closer_def is_space_def)
qed

section \<open>Mode A: the batched update\<close>

lemma mapItemToApiRequest_index0:
  "\<exists>payload. mapItemToApiRequest item = Some (CreateItem payload 0)"
  by (cases "itemType item") (simp_all add: mapItemToApiRequest_def Let_def)

lemma map_filter_total:
  "(\<And>x. \<exists>y. f x = Some y) \<Longrightarrow> map Some (List.map_filter f xs) = map f xs"
proof (induction xs)
  case Nil
  show ?case by (simp add: List.map_filter_simps)
next
  case (Cons x xs)
  from Cons.prems obtain y where "f x = Some y" by blast
  with Cons show ?case by (simp add: List.map_filter_simps)
qed

lemma itemRequests_all:
  "map Some (itemRequests form) = map mapItemToApiRequest (rev (items form))"
proof -
  have "map Some (List.map_filter mapItemToApiRequest (items form))
          = map mapItemToApiRequest (items form)"
  proof (rule map_filter_total)
    fix x
    show "\<exists>y. mapItemToApiRequest x = Some y"
      using mapItemToApiRequest_index0 [of x] by blast
  qed
  then show ?thesis
    by (simp add: itemRequests_def rev_map [symmetric])
qed

lemma batchUpdate_creations:
  "(\<forall>r \<in> set rs. \<exists>p. r = CreateItem p 0) \<Longrightarrow>
     foldl applyRequest f rs = f\<lparr>r_items := rev (List.map_filter createdItem rs) @ r_items f\<rparr>"
proof (induction rs arbitrary: f)
  case Nil
  show ?case by (simp add: List.map_filter_simps)
next
  case (Cons r rs)
  then obtain p where r: "r = CreateItem p 0" by auto
  from Cons have "foldl applyRequest (applyRequest f r) rs
      = (applyRequest f r)\<lparr>r_items := rev (List.map_filter createdItem rs) @ r_items (applyRequest f r)\<rparr>"
    by simp
  then show ?case by (simp add: r List.map_filter_simps)
qed

lemma createItem_payloads:
  "(\<forall>r \<in> set rs. \<exists>p. r = CreateItem p 0) \<Longrightarrow>
     map (\<lambda>p. Some (CreateItem p 0)) (List.map_filter createdItem rs) = map Some rs"
  by (induction rs) (auto simp: List.map_filter_simps)

lemma itemRequests_index0:
  "\<forall>r \<in> set (itemRequests form). \<exists>payload. r = CreateItem payload 0"
proof
  fix r assume "r \<in> set (itemRequests form)"
  then have "Some r \<in> set (map Some (itemRequests form))" by simp
  then have "Some r \<in> set (map mapItemToApiRequest (rev (items form)))"
    by (simp only: itemRequests_all)
  then obtain it where "mapItemToApiRequest it = Some r" by auto
  with mapItemToApiRequest_index0 [of it] show "\<exists>payload. r = CreateItem payload 0" by auto
qed

lemma batchUpdate_allRequests:
  "batchUpdate f (allRequests form) =
     \<lparr>r_isQuiz = True,
      r_items = rev (List.map_filter createdItem (itemRequests form)) @ r_items f,
      r_description = Some (formDescription form)\<rparr>"
  by (simp add: batchUpdate_def allRequests_def quizSettingsRequest_def descriptionUpdateRequest_def
      batchUpdate_creations [OF itemRequests_index0])

lemma batchUpdates_createForm:
  "batchUpdates (fst (createForm tok form st created updated)) =
     (case created of Ok (formId, uri) \<Rightarrow> [(formId, allRequests form)] | _ \<Rightarrow> [])"
  by (cases created; cases updated)
     (auto simp: createForm_def batchUpdates_def Let_def List.map_filter_simps allRequests_def)

text \<open>
  Claim C1. For every form, the request list of the batched update is the request that
  enables quiz mode, then the creation requests, then the request that sets the
  description. The creation requests are the images of the form's items under
  \<open>mapItemToApiRequest\<close>, one for each item and none dropped, in the reverse of the
  items' order, and each one targets index 0. \<open>createForm\<close> issues this list in exactly
  one batch update, addressed to the form the first call created, and none when that first
  call did not succeed. Applied to the empty shell by a platform that inserts at the
  requested index, the list leaves the items in the form's original order, with quiz mode
  on and the description set.
\<close>

theorem createForm_batched_update:
  "allRequests form = quizSettingsRequest # itemRequests form @ [descriptionUpdateRequest form]
   \<and> map Some (itemRequests form) = map mapItemToApiRequest (rev (items form))
   \<and> (\<forall>r \<in> set (itemRequests form). \<exists>payload. r = CreateItem payload 0)
   \<and> batchUpdates (fst (createForm tok form st created updated)) =
       (case created of Ok (formId, uri) \<Rightarrow> [(formId, allRequests form)] | _ \<Rightarrow> [])
   \<and> r_isQuiz (batchUpdate shell (allRequests form))
   \<and> map (\<lambda>p. Some (CreateItem p 0)) (r_items (batchUpdate shell (allRequests form)))
       = map mapItemToApiRequest (items form)
   \<and> r_description (batchUpdate shell (allRequests form)) = Some (formDescription form)"
proof -
  have "map (\<lambda>p. Some (CreateItem p 0)) (rev (List.map_filter createdItem (itemRequests form)))
          = rev (map Some (itemRequests form))"
    by (simp add: rev_map [symmetric] createItem_payloads [OF itemRequests_index0])
  also have "\<dots> = map mapItemToApiRequest (items form)"
    by (simp add: itemRequests_all rev_map)
  finally have order: "map (\<lambda>p. Some (CreateItem p 0))
      (rev (List.map_filter createdItem (itemRequests form))) = map mapItemToApiRequest (items form)" .
  show ?thesis
    using order
    by (simp add: batchUpdate_allRequests batchUpdates_createForm itemRequests_all
        itemRequests_index0 shell_def) (simp add: allRequests_def)
qed

theorem createForm_batched_update_witness:
  "map Some (itemRequests geography_quiz)
     = [mapItemToApiRequest capital_item, mapItemToApiRequest name_item]
   \<and> batchUpdates (fst (createForm (js ''token'') geography_quiz modal_idle
         (Ok (js ''form1'', js ''https://forms.example/form1'')) (Ok ())))
       = [(js ''form1'', allRequests geography_quiz)]
   \<and> map i_title (r_items (batchUpdate shell (allRequests geography_quiz)))
       = [title name_item, title capital_item]"
proof -
  note inst = createForm_batched_update [of geography_quiz "js ''token''" modal_idle
      "Ok (js ''form1'', js ''https://forms.example/form1'')" "Ok ()"]
  have its: "items geography_quiz = [name_item, capital_item]"
    by (simp add: geography_quiz_def)
  from inst have reversed: "map Some (itemRequests geography_quiz)
      = map mapItemToApiRequest (rev (items geography_quiz))"
    by (elim conjE) assumption
  from inst have issued: "batchUpdates (fst (createForm (js ''token'') geography_quiz modal_idle
         (Ok (js ''form1'', js ''https://forms.example/form1'')) (Ok ())))
       = (case Ok (js ''form1'', js ''https://forms.example/form1'') of
            Ok (formId, uri) \<Rightarrow> [(formId, allRequests geography_quiz)] | _ \<Rightarrow> [])"
    by (elim conjE) assumption
  from inst have payloads: "map (\<lambda>p. Some (CreateItem p 0))
      (r_items (batchUpdate shell (allRequests geography_quiz)))
      = map mapItemToApiRequest (items geography_quiz)"
    by (elim conjE) assumption
  have "map (map_option (\<lambda>r. case r of CreateItem p i \<Rightarrow> i_title p))
          (map (\<lambda>p. Some (CreateItem p 0))
             (r_items (batchUpdate shell (allRequests geography_quiz))))
        = [Some (title name_item), Some (title capital_item)]"
    unfolding payloads its
    by (simp add: mapItemToApiRequest_def name_item_def capital_item_def Let_def)
  then have titles: "map i_title (r_items (batchUpdate shell (allRequests geography_quiz)))
       = [title name_item, title capital_item]"
    by (simp add: map_eq_Cons_conv comp_def)
  show ?thesis
    using reversed issued titles by (simp add: its)
qed

subsection \<open>Grading blocks\<close>

lemma request_grading_SHORT_ANSWER:
  "itemType item = SHORT_ANSWER \<Longrightarrow>
     request_grading (mapItemToApiRequest item) = q_grading (base_question item)"
  by (simp add: request_grading_def mapItemToApiRequest_def Let_def)


lemma request_grading_PARAGRAPH:
  "itemType item = PARAGRAPH \<Longrightarrow> request_grading (mapItemToApiRequest item) = None"
  by (simp add: request_grading_def mapItemToApiRequest_def Let_def empty_question_def)

lemma q_grading_base_question:
  "q_grading (base_question item) =
     (case (points item, correctAnswer item) of
        (Some p, Some a) \<Rightarrow>
          if 0 < p \<and> a \<noteq> Single []
          then Some \<lparr>pointValue = p,
                     correctAnswers = (case a of Single s \<Rightarrow> [s] | Multiple xs \<Rightarrow> xs)\<rparr>
          else None
      | _ \<Rightarrow> None)"
  by (auto simp: base_question_def Let_def truthy_points_def truthy_correctAnswer_def
      empty_question_def split: option.splits Answer.splits)

lemma tokyo_item_fields:
  "itemType tokyo_item = SHORT_ANSWER" "points_or_0 tokyo_item = 2"
  "correctAnswer tokyo_item = Some (Single (js ''Tokyo''))" "js ''Tokyo'' \<noteq> []"
  "points tokyo_item = Some 2"
  by (simp_all add: tokyo_item_def points_or_0_def js_simps)


text \<open>
  Claim C5, as amended. The request of a SHORT_ANSWER item carries a grading block
  exactly when \<open>points\<close> is present and greater than zero and \<open>correctAnswer\<close> is
  present and is not the empty string; the block then holds \<open>points\<close> as its point value
  and, as its correct answers, \<open>correctAnswer\<close> itself when it is a sequence and the
  one-element sequence of it when it is a single string. The request of a PARAGRAPH item
  never carries a grading block.
\<close>

theorem mapItemToApiRequest_grading:
  "(itemType item = SHORT_ANSWER \<longrightarrow>
      request_grading (mapItemToApiRequest item) =
        (case (points item, correctAnswer item) of
           (Some p, Some a) \<Rightarrow>
             if 0 < p \<and> a \<noteq> Single []
             then Some \<lparr>pointValue = p,
                        correctAnswers = (case a of Single s \<Rightarrow> [s] | Multiple xs \<Rightarrow> xs)\<rparr>
             else None
         | _ \<Rightarrow> None))
   \<and> (itemType item = PARAGRAPH \<longrightarrow> request_grading (mapItemToApiRequest item) = None)"
  by (simp add: request_grading_SHORT_ANSWER request_grading_PARAGRAPH q_grading_base_question)

theorem mapItemToApiRequest_grading_witness:
  "request_grading (mapItemToApiRequest tokyo_item)
     = Some \<lparr>pointValue = 2, correctAnswers = [js ''Tokyo'']\<rparr>
   \<and> points essay_item = Some 2
   \<and> correctAnswer essay_item = Some (Single (js ''Tokyo''))
   \<and> request_grading (mapItemToApiRequest essay_item) = None"
  using mapItemToApiRequest_grading [of tokyo_item] mapItemToApiRequest_grading [of essay_item]
  by (simp add: tokyo_item_fields essay_item_def)

text \<open>
  Claim C5 as stated fails where \<open>correctAnswer\<close> is present and empty: the item below has
  \<open>points\<close> 1 and the empty string as its answer, and its request has no grading block.
\<close>

theorem mapItemToApiRequest_grading_counterexample:
  "itemType blank_answer_item = SHORT_ANSWER
   \<and> points blank_answer_item = Some 1
   \<and> correctAnswer blank_answer_item = Some (Single [])
   \<and> request_grading (mapItemToApiRequest blank_answer_item) = None"
  by (simp add: request_grading_SHORT_ANSWER q_grading_base_question blank_answer_item_def)

section \<open>Mode B: the comments of the script\<close>

























section \<open>Answers of checkbox items\<close>











section \<open>The outcomes of form generation\<close>

lemma sublist_hd_mem: "sublist (x # xs) ys \<Longrightarrow> x \<in> set ys"
  by (auto simp: sublist_def)

lemma missing_fields_message_kept:
  "on_error (OtherError missing_fields_message) = missing_fields_message"
proof -
  have "sublist missing_fields_phrase missing_fields_message"
    unfolding missing_fields_message_def sublist_def by (rule exI [of _ "[]"]) simp
  then show ?thesis by (simp add: on_error_def)
qed

lemma null_property_message_replaced:
  "on_error (OtherError null_property_message) = generation_failed_message"
proof -
  have "\<not> sublist missing_fields_phrase null_property_message"
  proof
    assume "sublist missing_fields_phrase null_property_message"
    then have "65 \<in> set null_property_message"
      using sublist_hd_mem [of 65 "js ''I response is missing required fields''" null_property_message]
      by (simp add: missing_fields_phrase_def js_simps)
    then show False
      by (simp add: null_property_message_def js_simps)
  qed
  then show ?thesis by (simp add: on_error_def)
qed

lemma on_error_SyntaxError: "on_error (SyntaxError m) = unprocessable_message"
  by (simp add: on_error_def)

lemma messages_distinct:
  "unprocessable_message \<noteq> missing_fields_message"
  "unprocessable_message \<noteq> generation_failed_message"
  "missing_fields_message \<noteq> generation_failed_message"
  by (simp_all add: unprocessable_message_def missing_fields_message_def missing_fields_phrase_def
      generation_failed_message_def js_simps)

text \<open>The outcomes of \<open>generateFormFromText\<close>, branch by branch.\<close>

lemma generateFormFromText_cases:
  "generateFormFromText JSON_parse (Inl e) = Inl (on_error e)"
  "JSON_parse (sanitizedJsonStr text) = None \<Longrightarrow>
     generateFormFromText JSON_parse (Inr text) = Inl unprocessable_message"
  "JSON_parse (sanitizedJsonStr text) = Some JNull \<Longrightarrow>
     generateFormFromText JSON_parse (Inr text) = Inl generation_failed_message"
  "JSON_parse (sanitizedJsonStr text) = Some v \<Longrightarrow> v \<noteq> JNull \<Longrightarrow>
     generateFormFromText JSON_parse (Inr text) =
       (if truthy (property v (js ''title'')) \<and> truthy (property v (js ''description''))
           \<and> isArray (property v (js ''items''))
        then Inr v else Inl missing_fields_message)"
  by (auto simp: generateFormFromText_def on_error_SyntaxError null_property_message_replaced
      missing_fields_message_kept split: json.splits)

lemma isArray_iff: "isArray v \<longleftrightarrow> (\<exists>xs. v = Some (JArray xs))"
  by (cases v rule: isArray.cases) auto

lemma sample_json_fields:
  "property untitled_json (js ''title'') = Some (JString [])"
  "property untitled_json (js ''description'') = Some (JString (js ''A quiz''))"
  "property untitled_json (js ''items'') = Some (JArray [])"
  "property titled_json (js ''title'') = Some (JString (js ''Quiz''))"
  "property titled_json (js ''description'') = Some (JString (js ''A quiz''))"
  "property titled_json (js ''items'') = Some (JArray [])"
  "untitled_json \<noteq> JNull" "titled_json \<noteq> JNull"
  by (simp_all add: untitled_json_def titled_json_def js_simps)

text \<open>
  Claim C10. Let the sanitized response parse to a value that is not \<^verbatim>\<open>null\<close>.
  \<open>generateFormFromText\<close> raises the error for missing required fields when \<open>title\<close> or
  \<open>description\<close> is absent, and raises the same error when either is present and equal to
  the empty string; it raises that error whenever \<open>items\<close> is not an array; and it returns
  the parsed value exactly when \<open>title\<close> and \<open>description\<close> are truthy and \<open>items\<close> is an
  array. So the check asks more than the presence of the three keys.
\<close>

theorem generateFormFromText_required_fields:
  "JSON_parse (sanitizedJsonStr text) = Some v \<and> v \<noteq> JNull \<longrightarrow>
     (property v (js ''title'') \<in> {None, Some (JString [])}
        \<or> property v (js ''description'') \<in> {None, Some (JString [])}
      \<longrightarrow> generateFormFromText JSON_parse (Inr text) = Inl missing_fields_message)
     \<and> ((\<nexists>xs. property v (js ''items'') = Some (JArray xs))
      \<longrightarrow> generateFormFromText JSON_parse (Inr text) = Inl missing_fields_message)
     \<and> (generateFormFromText JSON_parse (Inr text) = Inr v \<longleftrightarrow>
           truthy (property v (js ''title'')) \<and> truthy (property v (js ''description''))
           \<and> (\<exists>xs. property v (js ''items'') = Some (JArray xs)))
     \<and> (\<forall>form. generateFormFromText JSON_parse (Inr text) = Inr form \<longrightarrow> form = v)"
proof (intro impI)
  assume "JSON_parse (sanitizedJsonStr text) = Some v \<and> v \<noteq> JNull"
  then have eq: "generateFormFromText JSON_parse (Inr text) =
       (if truthy (property v (js ''title'')) \<and> truthy (property v (js ''description''))
           \<and> isArray (property v (js ''items''))
        then Inr v else Inl missing_fields_message)"
    using generateFormFromText_cases(4) by blast
  show "(property v (js ''title'') \<in> {None, Some (JString [])}
        \<or> property v (js ''description'') \<in> {None, Some (JString [])}
      \<longrightarrow> generateFormFromText JSON_parse (Inr text) = Inl missing_fields_message)
     \<and> ((\<nexists>xs. property v (js ''items'') = Some (JArray xs))
      \<longrightarrow> generateFormFromText JSON_parse (Inr text) = Inl missing_fields_message)
     \<and> (generateFormFromText JSON_parse (Inr text) = Inr v \<longleftrightarrow>
           truthy (property v (js ''title'')) \<and> truthy (property v (js ''description''))
           \<and> (\<exists>xs. property v (js ''items'') = Some (JArray xs)))
     \<and> (\<forall>form. generateFormFromText JSON_parse (Inr text) = Inr form \<longrightarrow> form = v)"
    unfolding eq by (auto simp: isArray_iff)
qed

theorem generateFormFromText_required_fields_witness:
  "property untitled_json (js ''title'') = Some (JString [])
   \<and> property untitled_json (js ''description'') = Some (JString (js ''A quiz''))
   \<and> property untitled_json (js ''items'') = Some (JArray [])
   \<and> generateFormFromText (\<lambda>s. Some untitled_json) (Inr (js ''{}'')) = Inl missing_fields_message
   \<and> generateFormFromText (\<lambda>s. Some titled_json) (Inr (js ''{}'')) = Inr titled_json"
  using generateFormFromText_required_fields [of "\<lambda>s. Some untitled_json" "js ''{}''" untitled_json]
    generateFormFromText_required_fields [of "\<lambda>s. Some titled_json" "js ''{}''" titled_json]
  by (simp add: sample_json_fields) (simp add: js_simps)

lemma sanitizedJsonStr_null: "sanitizedJsonStr (js ''null'') = js ''null''"
  by (simp add: sanitizedJsonStr_unfenced unfenced_def trim_def fence_def js_simps is_space_def
      sanitizeJsonString_simps)

text \<open>
  Claim C3, at the input where the code departs from it. When the sanitized response
  parses to \<^verbatim>\<open>null\<close> (the response text \<^verbatim>\<open>null\<close> is handed to the parser as it is),
  no required field is there, but reading \<open>title\<close> throws a \<^verbatim>\<open>TypeError\<close> before the
  check is made, and the \<^verbatim>\<open>catch\<close> clause answers with the message it gives for a
  failed call to the model, which is not the message for missing required fields. In the
  other direction, a call to the model that fails with a \<^verbatim>\<open>SyntaxError\<close> is answered
  with the message for a response that could not be parsed.
\<close>

theorem generateFormFromText_null_response:
  "(JSON_parse (sanitizedJsonStr text) = Some JNull \<longrightarrow>
      generateFormFromText JSON_parse (Inr text) = Inl generation_failed_message)
   \<and> (\<forall>m. \<not> sublist missing_fields_phrase m \<longrightarrow>
         generateFormFromText JSON_parse (Inl (OtherError m)) = Inl generation_failed_message)
   \<and> (\<forall>m. generateFormFromText JSON_parse (Inl (SyntaxError m)) = Inl unprocessable_message)
   \<and> sanitizedJsonStr (js ''null'') = js ''null''
   \<and> generation_failed_message \<noteq> missing_fields_message"
  using messages_distinct(3)
  by (auto simp: generateFormFromText_cases sanitizedJsonStr_null on_error_def)

theorem generateFormFromText_null_response_witness:
  "null_parser (sanitizedJsonStr (js ''null'')) = Some JNull
   \<and> generateFormFromText null_parser (Inr (js ''null'')) = Inl generation_failed_message"
  using generateFormFromText_null_response [of null_parser "js ''null''"]
  by (simp add: null_parser_def)

section \<open>Ingestion: refused files and OCR calls\<close>

subsection \<open>Unsupported files\<close>

lemma processFile_unsupported_eq:
  assumes "toLowerCase (last_segment (name file)) \<notin> {js ''pdf'', js ''docx'', js ''txt'', js ''md''}"
    and "mime file \<notin> {js ''application/pdf'', docx_mime}"
    and "\<not> prefix (js ''text/'') (mime file)"
  shows "processFile ns toLowerCase st file =
           (st\<lparr>inputText := [], isProcessingFile := False,
               fileProcessingError := Some unsupported_message\<rparr>, [])"
  using assms by (simp add: processFile_def Let_def reading_error_def message_or_def)

lemma processFile_text_type:
  assumes "toLowerCase (last_segment (name file)) \<notin> {js ''pdf'', js ''docx''}"
    and "mime file \<notin> {js ''application/pdf'', docx_mime}"
    and "prefix (js ''text/'') (mime file)"
    and "plainText file = Inr text"
  shows "processFile ns toLowerCase st file =
           (st\<lparr>inputText := text, isProcessingFile := False, fileProcessingError := None,
               processingMessage := js ''Reading text file...''\<rparr>, [])"
  using assms by (simp add: processFile_def Let_def)

subsection \<open>The calls to the OCR client\<close>

lemma processPages_earlier:
  "j < i \<Longrightarrow> count_list (calls_of (processPages ns n i pages st ft calls)) j = count_list calls j"
proof (induction pages arbitrary: i st ft calls)
  case Nil
  show ?case by (simp add: calls_of_def)
next
  case (Cons p ps)
  then have "j < Suc i" "j \<noteq> i" by simp_all
  then show ?case
    using Cons.IH [of "Suc i"]
    by (cases p) (auto simp: calls_of_def Let_def split: option.splits)
qed

lemma processPages_page:
  assumes "k < length pages" "pages ! k = Inr page" "\<forall>m<k. \<exists>q. pages ! m = Inr q"
  shows "count_list (calls_of (processPages ns n i pages st ft calls)) (i + k)
           = count_list calls (i + k)
             + (if image_only page \<and> hasContext page \<and> renders page then 1 else 0)"
  using assms
proof (induction pages arbitrary: i k st ft calls)
  case Nil
  then show ?case by simp
next
  case (Cons p ps)
  show ?case
  proof (cases k)
    case 0
    with Cons.prems have p: "p = Inr page" by simp
    have later: "count_list (calls_of (processPages ns n (Suc i) ps st' ft' calls')) i
        = count_list calls' i" for st' ft' calls'
      by (rule processPages_earlier) simp
    show ?thesis
      using 0 p later
      by (auto simp: calls_of_def [symmetric] image_only_def Let_def split: option.splits)
  next
    case (Suc k')
    with Cons.prems have k': "k' < length ps" "ps ! k' = Inr page"
      "\<forall>m<k'. \<exists>q. ps ! m = Inr q"
      by auto
    from Cons.prems Suc obtain q where q: "p = Inr q" by (metis nth_Cons_0 zero_less_Suc)
    have step: "count_list (calls_of (processPages ns n (Suc i) ps st' ft' calls')) (Suc i + k')
        = count_list calls' (Suc i + k')
          + (if image_only page \<and> hasContext page \<and> renders page then 1 else 0)"
      for st' ft' calls'
      by (rule Cons.IH [OF k'])
    show ?thesis
      using Suc q step
      by (auto simp: calls_of_def [symmetric] Let_def split: option.splits)
  qed
qed


lemma processFile_pdf_calls:
  assumes "toLowerCase (last_segment (name file)) = js ''pdf'' \<or> mime file = js ''application/pdf''"
    and "pdfDocument file = Inr pages"
  shows "snd (processFile ns toLowerCase st file)
           = calls_of (processPages ns (length pages) 1 pages
               (st\<lparr>isProcessingFile := True, fileProcessingError := None, inputText := [],
                   processingMessage := js ''Loading PDF...''\<rparr>) [] [])"
  using assms
  by (auto simp: processFile_def Let_def calls_of_def split: prod.splits option.splits)

lemma processFile_calls_count:
  assumes "toLowerCase (last_segment (name doc)) = js ''pdf'' \<or> mime doc = js ''application/pdf''"
    and "pdfDocument doc = Inr pages"
    and "k < length pages" "pages ! k = Inr page" "\<forall>m<k. \<exists>q. pages ! m = Inr q"
  shows "count_list (snd (processFile ns toLowerCase st doc)) (Suc k)
           = (if image_only page \<and> hasContext page \<and> renders page then 1 else 0)"
proof -
  have "snd (processFile ns toLowerCase st doc)
           = calls_of (processPages ns (length pages) 1 pages
               (st\<lparr>isProcessingFile := True, fileProcessingError := None, inputText := [],
                   processingMessage := js ''Loading PDF...''\<rparr>) [] [])"
    by (rule processFile_pdf_calls) (fact assms)+
  then show ?thesis
    using processPages_page [OF assms(3-5), of ns "length pages" 1] by simp
qed

lemma dropWhile_none: "\<forall>c \<in> set s. \<not> p c \<Longrightarrow> dropWhile p s = s"
  by (cases s) auto

lemma trim_spaces: "\<forall>c \<in> set s. is_space c \<Longrightarrow> trim s = []"
proof -
  assume "\<forall>c \<in> set s. is_space c"
  then have d: "dropWhile is_space s = []" by simp
  show ?thesis unfolding trim_def d by simp
qed

lemma trim_letters: "\<forall>c \<in> set s. \<not> is_space c \<Longrightarrow> trim s = s"
proof -
  assume a: "\<forall>c \<in> set s. \<not> is_space c"
  then have "dropWhile is_space s = s" by (rule dropWhile_none)
  moreover from a have "dropWhile is_space (rev s) = rev s" by (intro dropWhile_none) simp
  ultimately show ?thesis by (simp add: trim_def)
qed

lemma sample_pages:
  "length (trim (join [32] (strs blank_page))) = 0"
  "length (trim (join [32] (strs text_page))) = 60"
  "length (join [32] (strs blank_page)) = 60"
  "height blank_page = 792" "height text_page = 792"
  "hasContext blank_page" "renders blank_page"
  by (simp_all add: blank_page_def text_page_def trim_spaces trim_letters is_space_def)

lemma scan_file_fields:
  "mime scan_file = js ''application/pdf''"
  "pdfDocument scan_file = Inr [Inr text_page, Inr blank_page]"
  by (simp_all add: scan_file_def)

text \<open>
  Claim C7, as amended. Let a PDF document load, and let a page of it load after all the
  pages before it have loaded. \<^verbatim>\<open>extractTextFromImage\<close> is called exactly once for the
  page when its extracted text, trimmed, is shorter than 50 code units, its viewport at
  scale 1 is higher than 100 units, the canvas gives a drawing context and the page
  renders; it is not called for the page in any other case, in particular not when the
  trimmed text has 50 code units or more. The number of the page with index \<open>k\<close> is
  \<open>Suc k\<close>.
\<close>

theorem processFile_ocr_calls:
  "(toLowerCase (last_segment (name doc)) = js ''pdf'' \<or> mime doc = js ''application/pdf'')
   \<and> pdfDocument doc = Inr pages
   \<and> k < length pages \<and> pages ! k = Inr page \<and> (\<forall>m<k. \<exists>q. pages ! m = Inr q)
   \<longrightarrow> count_list (snd (processFile ns toLowerCase st doc)) (Suc k)
         = (if length (trim (join [32] (strs page))) < 50 \<and> 100 < height page
               \<and> hasContext page \<and> renders page
            then 1 else 0)"
  using processFile_calls_count [where toLowerCase = toLowerCase and doc = doc
      and pages = pages and k = k and page = page and ns = ns and st = st]
  by (simp add: image_only_def)

theorem processFile_ocr_calls_witness:
  "count_list (snd (processFile sample_numberToString ascii_toLowerCase panel_with_text scan_file)) 1 = 0
   \<and> count_list (snd (processFile sample_numberToString ascii_toLowerCase panel_with_text scan_file)) 2 = 1"
proof -
  have "count_list (snd (processFile sample_numberToString ascii_toLowerCase panel_with_text scan_file)) (Suc 0) = 0"
    using processFile_ocr_calls [where toLowerCase = ascii_toLowerCase and doc = scan_file
        and pages = "[Inr text_page, Inr blank_page]" and k = 0 and page = text_page
        and ns = sample_numberToString and st = panel_with_text]
    by (simp add: scan_file_fields sample_pages)
  moreover have "count_list (snd (processFile sample_numberToString ascii_toLowerCase panel_with_text scan_file)) (Suc 1) = 1"
    using processFile_ocr_calls [where toLowerCase = ascii_toLowerCase and doc = scan_file
        and pages = "[Inr text_page, Inr blank_page]" and k = 1 and page = blank_page
        and ns = sample_numberToString and st = panel_with_text]
    by (simp add: scan_file_fields sample_pages)
  ultimately show ?thesis by (simp add: numeral_2_eq_2)
qed

text \<open>
  Claim C7 as stated fails in its second half, which measures the extracted text and not
  the trimmed one: the second page of the document below has an extracted text of sixty
  code units, all of them spaces, and \<^verbatim>\<open>extractTextFromImage\<close> is called for it.
\<close>

theorem processFile_ocr_calls_counterexample:
  "pdfDocument scan_file = Inr [Inr text_page, Inr blank_page]
   \<and> length (join [32] (strs blank_page)) = 60
   \<and> count_list (snd (processFile sample_numberToString ascii_toLowerCase panel_with_text scan_file)) 2 = 1"
proof -
  have "count_list (snd (processFile sample_numberToString ascii_toLowerCase panel_with_text scan_file)) (Suc 1) = 1"
    using processFile_calls_count [where toLowerCase = ascii_toLowerCase and doc = scan_file
        and pages = "[Inr text_page, Inr blank_page]" and k = 1 and page = blank_page
        and ns = sample_numberToString and st = panel_with_text]
    by (simp add: scan_file_fields sample_pages image_only_def)
  then show ?thesis by (simp add: scan_file_fields sample_pages numeral_2_eq_2)
qed


lemma sample_files:
  "ascii_toLowerCase (last_segment (name png_file)) = js ''png''" "mime png_file = js ''image/png''"
  "ascii_toLowerCase (last_segment (name html_file)) = js ''html''" "mime html_file = js ''text/html''"
  "plainText html_file = Inr (js ''<p>Hello</p>'')"
  by (simp_all add: png_file_def html_file_def ascii_toLowerCase_def last_segment_def js_simps)

lemma sample_types:
  "js ''png'' \<notin> {js ''pdf'', js ''docx'', js ''txt'', js ''md''}"
  "js ''image/png'' \<notin> {js ''application/pdf'', docx_mime}"
  "\<not> prefix (js ''text/'') (js ''image/png'')"
  "js ''html'' \<notin> {js ''pdf'', js ''docx'', js ''txt'', js ''md''}"
  "js ''text/html'' \<notin> {js ''application/pdf'', docx_mime}"
  "prefix (js ''text/'') (js ''text/html'')"
  by (simp_all add: docx_mime_def js_simps)

text \<open>
  Claim C8, as amended. A file is refused when its extension, in lower case, is none of
  \<^verbatim>\<open>pdf\<close>, \<^verbatim>\<open>docx\<close>, \<^verbatim>\<open>txt\<close>, \<^verbatim>\<open>md\<close> and its declared type is neither the
  PDF type nor the DOCX type and does not start with \<^verbatim>\<open>text/\<close>. For such a file the
  ingestion ends with the message that lists the accepted formats, no text is extracted
  and no OCR call is made, and the input text held before is replaced by the empty text,
  since \<^verbatim>\<open>processFile\<close> clears it before it looks at the file. A file of another
  extension whose declared type starts with \<^verbatim>\<open>text/\<close> is read as a text file.
\<close>

theorem processFile_unsupported:
  "(toLowerCase (last_segment (name doc)) \<notin> {js ''pdf'', js ''docx'', js ''txt'', js ''md''}
    \<and> mime doc \<notin> {js ''application/pdf'', docx_mime}
    \<and> \<not> prefix (js ''text/'') (mime doc)
    \<longrightarrow> processFile ns toLowerCase st doc =
          (st\<lparr>inputText := [], isProcessingFile := False,
               fileProcessingError := Some unsupported_message\<rparr>, []))
   \<and> (toLowerCase (last_segment (name doc)) \<notin> {js ''pdf'', js ''docx''}
      \<and> mime doc \<notin> {js ''application/pdf'', docx_mime}
      \<and> prefix (js ''text/'') (mime doc) \<and> plainText doc = Inr text
      \<longrightarrow> processFile ns toLowerCase st doc =
            (st\<lparr>inputText := text, isProcessingFile := False, fileProcessingError := None,
                 processingMessage := js ''Reading text file...''\<rparr>, []))
   \<and> unsupported_message = js ''Unsupported file type. Please upload a PDF, DOCX, TXT, or MD file.''"
  using processFile_unsupported_eq [of toLowerCase doc ns st]
    processFile_text_type [of toLowerCase doc "text" ns st]
  by (simp add: unsupported_message_def)

theorem processFile_unsupported_witness:
  "processFile sample_numberToString ascii_toLowerCase panel_with_text png_file =
     (panel_with_text\<lparr>inputText := [], fileProcessingError := Some unsupported_message\<rparr>, [])"
  using processFile_unsupported [of ascii_toLowerCase png_file sample_numberToString
      panel_with_text "[]"] sample_types
  by (simp add: sample_files) (simp add: panel_with_text_def)

text \<open>
  Claim C8 as stated fails: after an image file is refused, the panel no longer holds the
  text it held before; and a file that is none of the four formats but declares the type
  \<^verbatim>\<open>text/html\<close> is accepted.
\<close>

theorem processFile_unsupported_counterexample:
  "inputText panel_with_text = js ''What is the capital of Japan?''
   \<and> inputText (fst (processFile sample_numberToString ascii_toLowerCase panel_with_text png_file)) = []
   \<and> js ''What is the capital of Japan?'' \<noteq> []
   \<and> ascii_toLowerCase (last_segment (name html_file)) = js ''html''
   \<and> fileProcessingError
        (fst (processFile sample_numberToString ascii_toLowerCase panel_with_text html_file)) = None
   \<and> inputText (fst (processFile sample_numberToString ascii_toLowerCase panel_with_text html_file))
       = js ''<p>Hello</p>''"
  using processFile_unsupported_eq [of ascii_toLowerCase png_file sample_numberToString
      panel_with_text]
    processFile_text_type [of ascii_toLowerCase html_file "js ''<p>Hello</p>''" sample_numberToString
      panel_with_text] sample_types
  by (simp add: sample_files) (simp add: panel_with_text_def js_simps)

end
